theory Spec2Isabelle
  imports Main "HOL-Library.Char_ord" "HOL-Library.List_Lexorder"
begin

section \<open>Shared data model\<close>

text \<open>
  Paths and source texts are JavaScript strings; they are modelled as \<open>string\<close>.
  A cached declaration is the triple produced by \<open>DeclarationProcessor.preProcess\<close>;
  its two reference sets are kept as lists in insertion order.
\<close>

type_synonym AbsolutePath = string

record CachedDeclaration =
  code :: string
  typeReferences :: "string list"
  fileReferences :: "string list"

text \<open>
  The errors of \<open>errors.ts\<close> that the modelled code can throw. \<open>TypeError\<close> stands
  for the runtime's own exception on a property access of \<open>null\<close> or \<open>undefined\<close>, and
  \<open>PlainError\<close> for a plain \<open>Error\<close> with its message, as libraries throw it.
  \<open>exitCode\<close> is the exit code \<open>handleBuildError\<close> finds: the \<open>code\<close> of a \<open>BuildError\<close>,
  and 1 for every other error.
\<close>

datatype error =
    TypeCheckError string string
  | BundleError string
  | UnsupportedSyntaxError string
  | TypeError
  | PlainError string

fun exitCode :: "error \<Rightarrow> nat" where
  "exitCode (TypeCheckError m d) = 1"
| "exitCode (BundleError m) = 2"
| "exitCode (UnsupportedSyntaxError m) = 1"
| "exitCode TypeError = 1"
| "exitCode (PlainError m) = 1"

section \<open>IncrementalBuildCache\<close>

text \<open>
  \<open>VersionedCache\<close> is the payload type of \<open>dts/@types\<close>, as far as a deserialized
  value has to follow it: \<open>Files.readCompressed\<close> casts what it reads and checks nothing.
  The field \<open>version\<close> is \<open>None\<close> when the payload has no integer there (a payload
  written by an older release has no such field); \<open>===\<close> tells every such value from the
  current constant. The field \<open>files\<close> is \<open>None\<close> when the payload's
  \<open>files\<close> is \<open>undefined\<close> or \<open>null\<close>, and else the entries \<open>Object.entries\<close> lists for
  it, in that order.
\<close>

record VersionedCache =
  version :: "int option"
  files :: "(string \<times> CachedDeclaration) list option"





text \<open>
  The cache object: the build-info path computed by the constructor and the settled value
  of the promise \<open>cacheLoaded\<close> that the constructor starts.
\<close>

record BuildCache =
  buildInfoPath :: AbsolutePath
  cacheLoaded :: "VersionedCache option"


text \<open>
  \<open>restore\<close>: sets every entry of the loaded payload in the target map, in order.
  \<open>Object.entries(cache.files)\<close> throws a \<open>TypeError\<close> when \<open>files\<close> is \<open>undefined\<close> or
  \<open>null\<close>, and \<open>restore\<close> has no handler for it.
\<close>

fun setEntries ::
  "(string \<times> CachedDeclaration) list \<Rightarrow> (string \<rightharpoonup> CachedDeclaration) \<Rightarrow> (string \<rightharpoonup> CachedDeclaration)"
where
  "setEntries [] target = target"
| "setEntries ((fileName, content) # rest) target = setEntries rest (target(fileName \<mapsto> content))"

definition restore ::
  "BuildCache \<Rightarrow> (string \<rightharpoonup> CachedDeclaration) \<Rightarrow> error + (string \<rightharpoonup> CachedDeclaration)"
where
  "restore c target =
     (case cacheLoaded c of
        None \<Rightarrow> Inr target
      | Some cache \<Rightarrow>
          (case files cache of
             None \<Rightarrow> Inl TypeError
           | Some entries \<Rightarrow> Inr (setEntries entries target)))"

definition isBuildInfoFile :: "BuildCache \<Rightarrow> AbsolutePath \<Rightarrow> bool" where
  "isBuildInfoFile c filePath = (filePath = buildInfoPath c)"

section \<open>FileManager\<close>

text \<open>
  The fields of \<open>FileManager\<close>, and the two effects it has on the outside: the files it
  hands to \<open>sys.writeFile\<close> (\<open>diskWrites\<close>) and the maps it hands to \<open>cache.save\<close>
  (\<open>cacheSaves\<close>), both in call order.
\<close>

record FileManager =
  hasEmittedFiles :: bool
  declarationFiles :: "AbsolutePath \<rightharpoonup> CachedDeclaration"
  cache :: "BuildCache option"
  diskWrites :: "(string \<times> string) list"
  cacheSaves :: "(AbsolutePath \<rightharpoonup> CachedDeclaration) list"

definition new_FileManager :: "BuildCache option \<Rightarrow> FileManager" where
  "new_FileManager buildCache =
     \<lparr>hasEmittedFiles = False, declarationFiles = Map.empty, cache = buildCache,
      diskWrites = [], cacheSaves = []\<rparr>"

text \<open>\<open>initialize\<close>. A throw of \<open>cache.restore\<close> is not handled: it is the throw of \<open>initialize\<close>.\<close>

definition initialize :: "FileManager \<Rightarrow> error + FileManager" where
  "initialize m =
     (let m1 = m\<lparr>hasEmittedFiles := False\<rparr>
      in case cache m1 of
           Some c \<Rightarrow>
             (case restore c (declarationFiles m1) of
                Inl e \<Rightarrow> Inl e
              | Inr restored \<Rightarrow> Inr (m1\<lparr>declarationFiles := restored\<rparr>))
         | None \<Rightarrow> Inr (m1\<lparr>declarationFiles := Map.empty\<rparr>))"

definition finalize :: "FileManager \<Rightarrow> bool \<times> FileManager" where
  "finalize m =
     (let m1 = (if cache m \<noteq> None \<and> hasEmittedFiles m
                then m\<lparr>cacheSaves := cacheSaves m @ [declarationFiles m]\<rparr> else m)
      in (cache m1 = None \<or> hasEmittedFiles m1, m1))"

text \<open>
  \<open>fileWriter\<close>. The parameter \<open>pre\<close> stands for
  \<open>DeclarationProcessor.preProcess(createSourceFile(filePath, text, ...))\<close>, which either
  returns a cached declaration or throws. A throw leaves the manager as it was.
\<close>

definition fileWriter ::
  "(string \<Rightarrow> string \<Rightarrow> error + CachedDeclaration) \<Rightarrow> FileManager \<Rightarrow> string \<Rightarrow> string
     \<Rightarrow> error + FileManager"
where
  "fileWriter pre m filePath text =
     (if (case cache m of Some c \<Rightarrow> isBuildInfoFile c filePath | None \<Rightarrow> False)
      then Inr (m\<lparr>diskWrites := diskWrites m @ [(filePath, text)], hasEmittedFiles := True\<rparr>)
      else case pre filePath text of
             Inl e \<Rightarrow> Inl e
           | Inr d \<Rightarrow> Inr (m\<lparr>declarationFiles := (declarationFiles m)(filePath \<mapsto> d),
                              hasEmittedFiles := True\<rparr>))"

text \<open>A sequence of calls on one manager; it stops at the first throw.\<close>

datatype call = Initialize | FileWriter string string

fun isFileWriter :: "call \<Rightarrow> bool" where
  "isFileWriter Initialize = False"
| "isFileWriter (FileWriter p t) = True"

fun runCalls ::
  "(string \<Rightarrow> string \<Rightarrow> error + CachedDeclaration) \<Rightarrow> FileManager \<Rightarrow> call list
     \<Rightarrow> error + FileManager"
where
  "runCalls pre m [] = Inr m"
| "runCalls pre m (Initialize # cs) =
     (case initialize m of Inl e \<Rightarrow> Inl e | Inr m' \<Rightarrow> runCalls pre m' cs)"
| "runCalls pre m (FileWriter p t # cs) =
     (case fileWriter pre m p t of Inl e \<Rightarrow> Inl e | Inr m' \<Rightarrow> runCalls pre m' cs)"

text \<open>
  The specification's condition for incremental work: some \<open>fileWriter\<close> call lies after
  the most recent \<open>initialize\<close> (after the construction when there is none).
\<close>

definition writtenSinceInitialize :: "call list \<Rightarrow> bool" where
  "writtenSinceInitialize cs = (\<exists>c \<in> set (takeWhile isFileWriter (rev cs)). isFileWriter c)"

section \<open>TypeScriptProject: type-check and build\<close>

text \<open>
  A compiler diagnostic, as far as \<open>typeCheck\<close> and \<open>handleTypeErrors\<close> read it: its
  category (the compiler's \<open>DiagnosticCategory\<close>), the file it is in with the line of its
  start position, and its message.
\<close>

datatype DiagnosticCategory = Warning | Error | Suggestion | Message

record Diagnostic =
  category :: DiagnosticCategory
  diagnosticFile :: "(string \<times> nat) option"
  messageText :: string

text \<open>
  What one call of the compiler's \<open>emit\<close> does: it hands each emitted file to the write
  callback, in order, and returns its diagnostics.
\<close>

record EmitResult =
  emitted :: "(string \<times> string) list"
  diagnostics :: "Diagnostic list"

text \<open>
  The per-file summary of \<open>handleTypeErrors\<close>: for each file, in first-seen order, the
  number of diagnostics and the smallest line.
\<close>

fun addFileError :: "string \<Rightarrow> nat \<Rightarrow> (string \<times> nat \<times> nat) list \<Rightarrow> (string \<times> nat \<times> nat) list" where
  "addFileError fileName line [] = [(fileName, 1, line)]"
| "addFileError fileName line ((f, count, l) # rest) =
     (if f = fileName then (f, count + 1, min l line) # rest
      else (f, count, l) # addFileError fileName line rest)"

fun filesWithErrors :: "Diagnostic list \<Rightarrow> (string \<times> nat \<times> nat) list \<Rightarrow> (string \<times> nat \<times> nat) list" where
  "filesWithErrors [] acc = acc"
| "filesWithErrors (d # ds) acc =
     (case diagnosticFile d of
        Some (fileName, line) \<Rightarrow> filesWithErrors ds (addFileError fileName line acc)
      | None \<Rightarrow> filesWithErrors ds acc)"

text \<open>
  The compiler's \<open>getCategoryFormat\<close>, which \<open>formatDiagnosticsWithColorAndContext\<close> asks
  for the colour of each diagnostic: it has no colour for a suggestion, and fails there
  with \<open>Debug.fail\<close>, which throws a plain \<open>Error\<close>.
\<close>

fun getCategoryFormat :: "DiagnosticCategory \<Rightarrow> error + string" where
  "getCategoryFormat Error = Inr (CHR 0x1B # ''[91m'')"
| "getCategoryFormat Warning = Inr (CHR 0x1B # ''[93m'')"
| "getCategoryFormat Suggestion =
     Inl (PlainError ''Debug Failure. Should never get an Info diagnostic on the command line.'')"
| "getCategoryFormat Message = Inr (CHR 0x1B # ''[94m'')"

text \<open>
  \<open>formatDiagnosticsWithColorAndContext\<close>: the diagnostics are formatted one after the
  other and the texts appended. \<open>ctx\<close> stands for the text of one diagnostic in the
  colour of its category (location, category name, code, message, code span and related
  information).
\<close>

fun formatDiagnosticsWithColorAndContext ::
  "(Diagnostic \<Rightarrow> string \<Rightarrow> string) \<Rightarrow> Diagnostic list \<Rightarrow> string \<Rightarrow> error + string"
where
  "formatDiagnosticsWithColorAndContext ctx [] output = Inr output"
| "formatDiagnosticsWithColorAndContext ctx (d # ds) output =
     (case getCategoryFormat (category d) of
        Inl e \<Rightarrow> Inl e
      | Inr colour \<Rightarrow> formatDiagnosticsWithColorAndContext ctx ds (output @ ctx d colour))"

text \<open>
  \<open>handleTypeErrors\<close> never returns; the value is the error it throws. Its first
  statement logs the coloured diagnostics, and a throw of the formatter leaves
  \<open>handleTypeErrors\<close> there. Otherwise it logs the summary and ends in
  \<open>throw new TypeCheckError\<close>. \<open>fmt\<close> is the compiler's \<open>formatDiagnostics\<close>, which has a
  name for every category.
\<close>

definition handleTypeErrors ::
  "(Diagnostic \<Rightarrow> string \<Rightarrow> string) \<Rightarrow> (Diagnostic list \<Rightarrow> string) \<Rightarrow> string \<Rightarrow> Diagnostic list \<Rightarrow> error"
where
  "handleTypeErrors ctx fmt message ds =
     (case formatDiagnosticsWithColorAndContext ctx ds [] of
        Inl e \<Rightarrow> e
      | Inr logged \<Rightarrow> TypeCheckError message (fmt ds))"

fun emitFiles ::
  "(string \<Rightarrow> string \<Rightarrow> error + CachedDeclaration) \<Rightarrow> FileManager \<Rightarrow> (string \<times> string) list
     \<Rightarrow> error + FileManager"
where
  "emitFiles pre m [] = Inr m"
| "emitFiles pre m ((p, t) # rest) =
     (case fileWriter pre m p t of Inl e \<Rightarrow> Inl e | Inr m' \<Rightarrow> emitFiles pre m' rest)"

text \<open>
  \<open>typeCheck\<close>: \<open>initialize\<close>, the emit with \<open>fileWriter\<close> as write callback, the test
  of the diagnostics, \<open>finalize\<close>. A throw of \<open>initialize\<close> or of the write callback is a
  throw of \<open>typeCheck\<close>.
\<close>

definition typeCheck ::
  "(string \<Rightarrow> string \<Rightarrow> error + CachedDeclaration) \<Rightarrow> (Diagnostic \<Rightarrow> string \<Rightarrow> string)
     \<Rightarrow> (Diagnostic list \<Rightarrow> string) \<Rightarrow> FileManager \<Rightarrow> EmitResult \<Rightarrow> error + (bool \<times> FileManager)"
where
  "typeCheck pre ctx fmt m e =
     (case initialize m of
        Inl err \<Rightarrow> Inl err
      | Inr m0 \<Rightarrow>
          (case emitFiles pre m0 (emitted e) of
             Inl err \<Rightarrow> Inl err
           | Inr m1 \<Rightarrow>
               if length (diagnostics e) > 0
               then Inl (handleTypeErrors ctx fmt ''Type-checking failed'' (diagnostics e))
               else Inr (finalize m1)))"

text \<open>The options \<open>build\<close> reads, and the phases it starts after the type-check.\<close>

record BuildOptions =
  noEmit :: bool
  force :: bool
  clean :: bool
  declarationOption :: bool
  emitDeclarationOnly :: bool
  watch :: bool

datatype phase = Clean | ProcessDeclarations | Transpile

text \<open>
  \<open>handleBuildError\<close>: the exit code it sets, if any. A \<open>BuildError\<close> gives its own code,
  any other error gives 1; in watch mode no exit code is set.
\<close>

definition handleBuildError :: "BuildOptions \<Rightarrow> error \<Rightarrow> nat option" where
  "handleBuildError opts err = (if watch opts then None else Some (exitCode err))"

text \<open>
  \<open>build\<close>, up to the start of the phases: the phases started, in order, and the exit
  code set by the \<open>catch\<close> clause.
\<close>

definition build ::
  "(string \<Rightarrow> string \<Rightarrow> error + CachedDeclaration) \<Rightarrow> (Diagnostic \<Rightarrow> string \<Rightarrow> string)
     \<Rightarrow> (Diagnostic list \<Rightarrow> string) \<Rightarrow> BuildOptions \<Rightarrow> FileManager \<Rightarrow> EmitResult
     \<Rightarrow> phase list \<times> nat option"
where
  "build pre ctx fmt opts m e =
     (case typeCheck pre ctx fmt m e of
        Inl err \<Rightarrow> ([], handleBuildError opts err)
      | Inr (filesWereEmitted, m') \<Rightarrow>
          (if filesWereEmitted \<and> (\<not> noEmit opts \<or> force opts)
           then (if clean opts then [Clean] else [])
              @ (if declarationOption opts then [ProcessDeclarations] else [])
              @ (if \<not> emitDeclarationOnly opts then [Transpile] else [])
           else [], None))"

text \<open>The specification's condition: some diagnostic has error severity.\<close>

definition hasErrorSeverity :: "Diagnostic list \<Rightarrow> bool" where
  "hasErrorSeverity ds = list_ex (\<lambda>d. category d = Error) ds"

text \<open>The phases a build starts when nothing stops it before, in order.\<close>

definition phasesOf :: "BuildOptions \<Rightarrow> phase list" where
  "phasesOf opts =
     (if clean opts then [Clean] else [])
       @ (if declarationOption opts then [ProcessDeclarations] else [])
       @ (if \<not> emitDeclarationOnly opts then [Transpile] else [])"

section \<open>Strings, sets and maps of the runtime\<close>

text \<open>
  A character is one code unit below 256. \<open>isSpace\<close> is the class \<open>\s\<close> of regular
  expressions on such characters, which is also what \<open>trim\<close> strips.
\<close>

definition isSpace :: "char \<Rightarrow> bool" where
  "isSpace c = (c = CHR '' '' \<or> c = CHR 0x09 \<or> c = CHR 0x0A \<or> c = CHR 0x0B \<or> c = CHR 0x0C
              \<or> c = CHR 0x0D \<or> c = CHR 0xA0)"

definition dquote :: string where
  "dquote = [CHR 0x22]"

definition isQuote :: "char \<Rightarrow> bool" where
  "isQuote c = (c = CHR 0x22 \<or> c = CHR 0x27)"

definition startsWith :: "string \<Rightarrow> string \<Rightarrow> bool" where
  "startsWith s p = (take (length p) s = p)"

definition endsWith :: "string \<Rightarrow> string \<Rightarrow> bool" where
  "endsWith s p = (length p \<le> length s \<and> drop (length s - length p) s = p)"

fun includesString :: "string \<Rightarrow> string \<Rightarrow> bool" where
  "includesString [] sub = (sub = [])"
| "includesString (c # cs) sub = (startsWith (c # cs) sub \<or> includesString cs sub)"

definition trimStart :: "string \<Rightarrow> string" where
  "trimStart s = dropWhile isSpace s"

definition trim :: "string \<Rightarrow> string" where
  "trim s = rev (dropWhile isSpace (rev (dropWhile isSpace s)))"

text \<open>\<open>s.slice(a, b)\<close> and \<open>s.substring(a, b)\<close> for \<open>a\<close> not above \<open>b\<close>.\<close>

definition sliceRange :: "string \<Rightarrow> nat \<Rightarrow> nat \<Rightarrow> string" where
  "sliceRange s a b = take (b - a) (drop a s)"

text \<open>\<open>s.split(sep)\<close> for a one-character separator: always at least one piece.\<close>

fun split :: "char \<Rightarrow> string \<Rightarrow> string list" where
  "split sep [] = [[]]"
| "split sep (c # cs) =
     (if c = sep then [] # split sep cs
      else (case split sep cs of p # ps \<Rightarrow> (c # p) # ps | [] \<Rightarrow> [[c]]))"

fun join :: "string \<Rightarrow> string list \<Rightarrow> string" where
  "join sep [] = []"
| "join sep [x] = x"
| "join sep (x # y # ys) = x @ sep @ join sep (y # ys)"

text \<open>
  A \<open>Set\<close> is a duplicate-free list in insertion order; \<open>setAdd\<close> is \<open>Set.add\<close>
  and \<open>newSet\<close> is \<open>new Set(xs)\<close>.
\<close>

definition setAdd :: "'a \<Rightarrow> 'a list \<Rightarrow> 'a list" where
  "setAdd x xs = (if x \<in> set xs then xs else xs @ [x])"

definition setAddAll :: "'a list \<Rightarrow> 'a list \<Rightarrow> 'a list" where
  "setAddAll ys xs = fold setAdd ys xs"

definition newSet :: "'a list \<Rightarrow> 'a list" where
  "newSet xs = setAddAll xs []"

text \<open>
  A \<open>Map\<close> is an association list in insertion order; \<open>mapSet\<close> is \<open>Map.set\<close>, which
  keeps the position of a key that is already there, and \<open>map_of\<close> is \<open>Map.get\<close>.
\<close>

fun mapSet :: "'k \<Rightarrow> 'v \<Rightarrow> ('k \<times> 'v) list \<Rightarrow> ('k \<times> 'v) list" where
  "mapSet k v [] = [(k, v)]"
| "mapSet k v ((k', v') # rest) =
     (if k' = k then (k, v) # rest else (k', v') # mapSet k v rest)"

section \<open>mergeImports\<close>

text \<open>
  \<open>importPattern.exec\<close>: the two groups of
  \<^verbatim>\<open>/^import\s*(?:type\s*)?\{\s*([^}]+)\s*\}\s*from\s*['"]([^'"]+)['"]\s*;?\s*$/\<close>,
  or \<open>None\<close> when the statement does not match. The pattern is matched from left to
  right; the only place where the greedy quantifiers give something back is a brace body
  of white space only, whose last character is then the first group.
\<close>

definition matchQuoted :: "string \<Rightarrow> string option" where
  "matchQuoted r =
     (case r of
        [] \<Rightarrow> None
      | q # r1 \<Rightarrow>
          if \<not> isQuote q then None
          else let spec = takeWhile (\<lambda>c. \<not> isQuote c) r1 in
            (case drop (length spec) r1 of
               [] \<Rightarrow> None
             | q' # r2 \<Rightarrow>
                 let r3 = trimStart r2;
                     r4 = (if startsWith r3 '';'' then drop 1 r3 else r3)
                 in if spec \<noteq> [] \<and> trimStart r4 = [] then Some spec else None))"

definition importPatternExec :: "string \<Rightarrow> (string \<times> string) option" where
  "importPatternExec s =
     (if \<not> startsWith s ''import'' then None
      else let r1 = trimStart (drop 6 s);
               r2 = (if startsWith r1 ''type'' then trimStart (drop 4 r1) else r1)
        in (case r2 of
              [] \<Rightarrow> None
            | b # r3 \<Rightarrow>
                if b \<noteq> CHR ''{'' then None
                else let body = takeWhile (\<lambda>c. c \<noteq> CHR ''}'') r3 in
                  (case drop (length body) r3 of
                     [] \<Rightarrow> None
                   | e # r4 \<Rightarrow>
                       if body = [] then None
                       else let namesString = (if trimStart body = [] then [last body] else trimStart body);
                                r5 = trimStart r4
                         in if \<not> startsWith r5 ''from'' then None
                            else (case matchQuoted (trimStart (drop 4 r5)) of
                                    None \<Rightarrow> None
                                  | Some moduleSpecifier \<Rightarrow> Some (namesString, moduleSpecifier)))))"

text \<open>An entry of \<open>moduleImports\<close>: the names seen so far and the kind of the first statement.\<close>

record ImportEntry =
  names :: "string list"
  isType :: bool

text \<open>\<open>key.replace(typePrefixPattern, '')\<close>.\<close>

definition stripTypePrefix :: "string \<Rightarrow> string" where
  "stripTypePrefix key = (if startsWith key ''type:'' then drop 5 key else key)"

text \<open>The first loop of \<open>mergeImports\<close>: the map of mergeable imports and the others.\<close>

fun collectImports ::
  "string list \<Rightarrow> (string \<times> ImportEntry) list \<times> string list \<Rightarrow> (string \<times> ImportEntry) list \<times> string list"
where
  "collectImports [] acc = acc"
| "collectImports (importStatement # rest) (moduleImports, nonMergeableImports) =
     (case importPatternExec importStatement of
        Some (namesString, moduleSpecifier) \<Rightarrow>
          let isType = includesString importStatement ''import type'';
              key = (if isType then ''type:'' else '''') @ moduleSpecifier;
              entry = (case map_of moduleImports key of
                         None \<Rightarrow> \<lparr>names = [], isType = isType\<rparr>
                       | Some en \<Rightarrow> en);
              entry' = entry\<lparr>names := setAddAll (map trim (split CHR '','' namesString)) (names entry)\<rparr>
          in collectImports rest (mapSet key entry' moduleImports, nonMergeableImports)
      | None \<Rightarrow> collectImports rest (moduleImports, nonMergeableImports @ [importStatement]))"

definition renderImport :: "string \<times> ImportEntry \<Rightarrow> string" where
  "renderImport ke =
     (if isType (snd ke) then ''import type'' else ''import'') @ '' { ''
       @ join '', '' (sort (names (snd ke))) @ '' } from '' @ dquote @ stripTypePrefix (fst ke) @ dquote @ '';''"

definition mergeImports :: "string list \<Rightarrow> string list" where
  "mergeImports imports =
     (case collectImports imports ([], []) of
        (moduleImports, nonMergeableImports) \<Rightarrow>
          map renderImport moduleImports @ newSet nonMergeableImports)"

section \<open>Declaration bundler: syntax trees and identifiers\<close>

text \<open>
  The statements of a parsed declaration file, as far as the bundler inspects them.
  An import declaration carries the text of its module specifier; an export declaration
  carries its module specifier, if any, and the elements \<open>(name, propertyName)\<close> of its
  clause when that is a list of named exports; a declaration carries its name, when it
  has one that is an identifier; a module declaration carries the nodes \<open>getChildren()\<close>
  lists.
\<close>

datatype Node =
    ImportDeclaration string
  | ExportDeclaration "string option" "(string \<times> string option) list option"
  | ExportAssignment
  | InterfaceDeclaration string
  | TypeAliasDeclaration string
  | EnumDeclaration string
  | FunctionDeclaration "string option"
  | ClassDeclaration "string option"
  | VariableStatement "string option list"
  | ModuleBlock "Node list"
  | ModuleDeclaration "string option" "Node list"
  | OtherNode

text \<open>
  A statement of a source file with what the bundler reads of its place in the text: the
  statement's \<open>pos\<close> and \<open>end\<close>, and the identifier nodes that a walk with \<open>forEachChild\<close>
  finds in the statement, at whatever depth, in the order of the walk, each with its
  \<open>pos\<close>, \<open>end\<close> and \<open>text\<close>. The \<open>pos\<close> of a node is its full start: the trivia (blanks,
  line breaks, comments) before the first token of the node lie between \<open>pos\<close> and the
  token.
\<close>

datatype IdentifierNode = IdentifierNode nat nat string

datatype Statement = Statement Node nat nat "IdentifierNode list"

fun statementNode :: "Statement \<Rightarrow> Node" where
  "statementNode (Statement n p e idents) = n"

fun identifierNodes :: "Statement \<Rightarrow> IdentifierNode list" where
  "identifierNodes (Statement n p e idents) = idents"

text \<open>
  \<open>IdentifierMap\<close>: the fields \<open>types\<close> and \<open>values\<close> of the source, under the names
  \<open>stripImportsExports\<close> gives them.
\<close>

record IdentifierMap =
  typeIdentifiers :: "string list"
  valueIdentifiers :: "string list"

definition addOptional :: "string option \<Rightarrow> string list \<Rightarrow> string list" where
  "addOptional name xs = (case name of Some n \<Rightarrow> setAdd n xs | None \<Rightarrow> xs)"

definition collectNestedIdentifiers :: "IdentifierMap \<Rightarrow> IdentifierMap \<Rightarrow> IdentifierMap" where
  "collectNestedIdentifiers sub acc =
     \<lparr>typeIdentifiers = setAddAll (typeIdentifiers sub) (typeIdentifiers acc),
      valueIdentifiers = setAddAll (valueIdentifiers sub) (valueIdentifiers acc)\<rparr>"

text \<open>
  \<open>collectIdentifiers\<close>, with the two sets of the running call as accumulator. The
  \<open>WeakMap\<close> in front of it only saves recomputation.
\<close>

fun collectInto :: "Node list \<Rightarrow> IdentifierMap \<Rightarrow> IdentifierMap" where
  "collectInto [] acc = acc"
| "collectInto (InterfaceDeclaration n # rest) acc =
     collectInto rest (acc\<lparr>typeIdentifiers := setAdd n (typeIdentifiers acc)\<rparr>)"
| "collectInto (TypeAliasDeclaration n # rest) acc =
     collectInto rest (acc\<lparr>typeIdentifiers := setAdd n (typeIdentifiers acc)\<rparr>)"
| "collectInto (EnumDeclaration n # rest) acc =
     collectInto rest (acc\<lparr>valueIdentifiers := setAdd n (valueIdentifiers acc)\<rparr>)"
| "collectInto (FunctionDeclaration n # rest) acc =
     collectInto rest (acc\<lparr>valueIdentifiers := addOptional n (valueIdentifiers acc)\<rparr>)"
| "collectInto (ClassDeclaration n # rest) acc =
     collectInto rest (acc\<lparr>valueIdentifiers := addOptional n (valueIdentifiers acc)\<rparr>)"
| "collectInto (VariableStatement ns # rest) acc =
     collectInto rest (acc\<lparr>valueIdentifiers := fold addOptional ns (valueIdentifiers acc)\<rparr>)"
| "collectInto (ModuleBlock statements # rest) acc =
     collectInto rest
       (collectNestedIdentifiers
          (collectInto statements \<lparr>typeIdentifiers = [], valueIdentifiers = []\<rparr>) acc)"
| "collectInto (ModuleDeclaration n children # rest) acc =
     collectInto rest
       (collectNestedIdentifiers
          (collectInto children \<lparr>typeIdentifiers = [], valueIdentifiers = []\<rparr>)
          (acc\<lparr>valueIdentifiers := addOptional n (valueIdentifiers acc)\<rparr>))"
| "collectInto (node # rest) acc = collectInto rest acc"

definition collectIdentifiers :: "Node list \<Rightarrow> IdentifierMap" where
  "collectIdentifiers statements = collectInto statements \<lparr>typeIdentifiers = [], valueIdentifiers = []\<rparr>"

text \<open>
  \<open>ModuleInfo\<close>: a cached declaration (code and the two reference sets) with its path,
  its imports, the statements of its parsed code and its identifiers.
\<close>

record ModuleInfo = CachedDeclaration +
  path :: AbsolutePath
  importPaths :: "string list"
  sourceFile :: "Statement list"
  identifiers :: IdentifierMap

section \<open>Declaration bundler: patterns\<close>

text \<open>A pattern is a string or a regular expression, the latter given by its \<open>test\<close>.\<close>

datatype Pattern = StringPattern string | RegExpPattern "string \<Rightarrow> bool"

fun matchesOne :: "string \<Rightarrow> Pattern \<Rightarrow> bool" where
  "matchesOne moduleSpecifier (StringPattern pattern) =
     (moduleSpecifier = pattern \<or> startsWith moduleSpecifier (pattern @ ''/''))"
| "matchesOne moduleSpecifier (RegExpPattern test) = test moduleSpecifier"

definition matchesPattern :: "string \<Rightarrow> Pattern list \<Rightarrow> bool" where
  "matchesPattern moduleSpecifier patterns = list_ex (matchesOne moduleSpecifier) patterns"

text \<open>
  The options of the bundler that the graph builder and the composer read. \<open>pathsOption\<close> says whether
  \<open>compilerOptions.paths\<close> is set and \<open>rootDirOption\<close> whether \<open>compilerOptions.rootDir\<close> is.
\<close>

record DtsBundleOptions =
  resolveOption :: bool
  external :: "Pattern list"
  noExternal :: "Pattern list"
  pathsOption :: bool
  rootDirOption :: bool
  outDir :: string

definition isExternal :: "DtsBundleOptions \<Rightarrow> string \<Rightarrow> bool" where
  "isExternal opts moduleSpecifier = matchesPattern moduleSpecifier (external opts)"

definition nodeModules :: string where
  "nodeModules = ''/node_modules/''"

definition newLine :: string where
  "newLine = [CHR 0x0A]"

section \<open>The edit buffer of stripImportsExports\<close>

text \<open>
  \<open>stripImportsExports\<close> edits the code of a module through a \<open>MagicString\<close> of the
  library \<open>magic-string\<close>, of which it calls the constructor, \<open>remove\<close>, \<open>overwrite\<close> and
  \<open>toString\<close>. The buffer is the original text cut into a chain of chunks; a chunk has
  the range \<open>start\<close>, \<open>end\<close> of the original it stands for, that piece of the original,
  the content printed for it, and a flag that says whether it was edited. The \<open>intro\<close>
  and \<open>outro\<close> of the library's chunks stay empty under these four operations and are
  left out. The library's maps \<open>byStart\<close> and \<open>byEnd\<close> are read off the chain: the chunk
  that starts, or ends, at an index. The messages of the errors are shortened.
\<close>

record Chunk =
  chunkStart :: nat
  chunkEnd :: nat
  chunkOriginal :: string
  chunkContent :: string
  chunkEdited :: bool

record MagicString =
  magicOriginal :: string
  chunks :: "Chunk list"

definition new_MagicString :: "string \<Rightarrow> MagicString" where
  "new_MagicString s =
     \<lparr>magicOriginal = s,
      chunks = [\<lparr>chunkStart = 0, chunkEnd = length s, chunkOriginal = s, chunkContent = s,
                 chunkEdited = False\<rparr>]\<rparr>"

text \<open>\<open>Chunk.edit(content)\<close>.\<close>

definition editChunk :: "string \<Rightarrow> Chunk \<Rightarrow> Chunk" where
  "editChunk content c = c\<lparr>chunkContent := content, chunkEdited := True\<rparr>"

text \<open>
  \<open>Chunk.split(index)\<close>: the chunk keeps the part before the index and a new chunk takes
  the part after it; the two parts of an edited chunk print nothing.
\<close>

definition splitChunk :: "nat \<Rightarrow> Chunk \<Rightarrow> Chunk \<times> Chunk" where
  "splitChunk index c =
     (let sliceIndex = index - chunkStart c;
          originalBefore = take sliceIndex (chunkOriginal c);
          originalAfter = drop sliceIndex (chunkOriginal c)
      in (c\<lparr>chunkEnd := index, chunkOriginal := originalBefore,
            chunkContent := (if chunkEdited c then [] else originalBefore)\<rparr>,
          \<lparr>chunkStart = index, chunkEnd = chunkEnd c, chunkOriginal = originalAfter,
           chunkContent = (if chunkEdited c then [] else originalAfter),
           chunkEdited = chunkEdited c\<rparr>))"

text \<open>
  \<open>_split(index)\<close>: nothing happens when a chunk starts or ends at the index, that is
  when no chunk has the index strictly inside; else that chunk is split, unless it was
  edited to a content that is not empty.
\<close>

fun magicSplit :: "nat \<Rightarrow> Chunk list \<Rightarrow> error + Chunk list" where
  "magicSplit index [] = Inr []"
| "magicSplit index (c # cs) =
     (if chunkStart c < index \<and> index < chunkEnd c
      then (if chunkEdited c \<and> chunkContent c \<noteq> []
            then Inl (PlainError ''Cannot split a chunk that has already been edited'')
            else Inr (fst (splitChunk index c) # snd (splitChunk index c) # cs))
      else (case magicSplit index cs of Inl e \<Rightarrow> Inl e | Inr cs' \<Rightarrow> Inr (c # cs')))"

text \<open>
  \<open>remove(start, end)\<close>: after the two splits, the chunk that starts at \<open>start\<close> and the
  chunks after it are edited to the empty content, up to the first one whose end is not
  below \<open>end\<close>.
\<close>

fun removeThrough :: "nat \<Rightarrow> Chunk list \<Rightarrow> Chunk list" where
  "removeThrough end' [] = []"
| "removeThrough end' (c # cs) =
     editChunk [] c # (if end' > chunkEnd c then removeThrough end' cs else cs)"

fun removeFrom :: "nat \<Rightarrow> nat \<Rightarrow> Chunk list \<Rightarrow> Chunk list" where
  "removeFrom start end' [] = []"
| "removeFrom start end' (c # cs) =
     (if chunkStart c = start then removeThrough end' (c # cs) else c # removeFrom start end' cs)"

definition magicRemove :: "nat \<Rightarrow> nat \<Rightarrow> MagicString \<Rightarrow> error + MagicString" where
  "magicRemove start end' magic =
     (if start = end' then Inr magic
      else if end' > length (magicOriginal magic) then Inl (PlainError ''Character is out of bounds'')
      else if start > end' then Inl (PlainError ''end must be greater than start'')
      else (case magicSplit start (chunks magic) of
              Inl e \<Rightarrow> Inl e
            | Inr cs1 \<Rightarrow>
                (case magicSplit end' cs1 of
                   Inl e \<Rightarrow> Inl e
                 | Inr cs2 \<Rightarrow> Inr (magic\<lparr>chunks := removeFrom start end' cs2\<rparr>))))"

text \<open>
  \<open>overwrite(start, end, content)\<close>: after the two splits, \<open>first\<close> is the chunk that
  starts at \<open>start\<close> and \<open>last\<close> the chunk that ends at \<open>end\<close>. The chunks after \<open>first\<close>
  up to \<open>last\<close> are edited to the empty content, which fails when the chain ends before
  \<open>last\<close> is met, and \<open>first\<close> is edited to the new content; an edit replaces whatever
  the chunk printed before, also nothing. When no chunk starts at \<open>start\<close>, a new chunk
  with the content is made the successor of \<open>last\<close>.
\<close>

fun blankThrough :: "nat \<Rightarrow> Chunk list \<Rightarrow> error + Chunk list" where
  "blankThrough end' [] = Inl (PlainError ''Cannot overwrite across a split point'')"
| "blankThrough end' (c # cs) =
     (if chunkEnd c = end' then Inr (editChunk [] c # cs)
      else (case blankThrough end' cs of Inl e \<Rightarrow> Inl e | Inr cs' \<Rightarrow> Inr (editChunk [] c # cs')))"

fun overwriteFrom :: "nat \<Rightarrow> nat \<Rightarrow> string \<Rightarrow> Chunk list \<Rightarrow> (error + Chunk list) option" where
  "overwriteFrom start end' content [] = None"
| "overwriteFrom start end' content (c # cs) =
     (if chunkStart c = start
      then Some (if chunkEnd c = end' then Inr (editChunk content c # cs)
                 else (case blankThrough end' cs of
                         Inl e \<Rightarrow> Inl e
                       | Inr cs' \<Rightarrow> Inr (editChunk content c # cs')))
      else (case overwriteFrom start end' content cs of
              None \<Rightarrow> None
            | Some (Inl e) \<Rightarrow> Some (Inl e)
            | Some (Inr cs') \<Rightarrow> Some (Inr (c # cs'))))"

fun appendAfter :: "nat \<Rightarrow> Chunk \<Rightarrow> Chunk list \<Rightarrow> Chunk list option" where
  "appendAfter end' newChunk [] = None"
| "appendAfter end' newChunk (c # cs) =
     (if chunkEnd c = end' then Some [c, newChunk]
      else (case appendAfter end' newChunk cs of None \<Rightarrow> None | Some cs' \<Rightarrow> Some (c # cs')))"

definition magicOverwrite :: "nat \<Rightarrow> nat \<Rightarrow> string \<Rightarrow> MagicString \<Rightarrow> error + MagicString" where
  "magicOverwrite start end' content magic =
     (if end' > length (magicOriginal magic) then Inl (PlainError ''end is out of bounds'')
      else if start = end' then Inl (PlainError ''Cannot overwrite a zero-length range'')
      else (case magicSplit start (chunks magic) of
              Inl e \<Rightarrow> Inl e
            | Inr cs1 \<Rightarrow>
                (case magicSplit end' cs1 of
                   Inl e \<Rightarrow> Inl e
                 | Inr cs2 \<Rightarrow>
                     (case overwriteFrom start end' content cs2 of
                        Some (Inl e) \<Rightarrow> Inl e
                      | Some (Inr cs3) \<Rightarrow> Inr (magic\<lparr>chunks := cs3\<rparr>)
                      | None \<Rightarrow>
                          (case appendAfter end'
                                  \<lparr>chunkStart = start, chunkEnd = end', chunkOriginal = [],
                                   chunkContent = content, chunkEdited = True\<rparr> cs2 of
                             None \<Rightarrow> Inl TypeError
                           | Some cs3 \<Rightarrow> Inr (magic\<lparr>chunks := cs3\<rparr>))))))"

definition magicToString :: "MagicString \<Rightarrow> string" where
  "magicToString magic = concat (map chunkContent (chunks magic))"

text \<open>A loop over a list whose body may throw: the first throw ends it.\<close>

fun forEach :: "('a \<Rightarrow> 's \<Rightarrow> error + 's) \<Rightarrow> 'a list \<Rightarrow> 's \<Rightarrow> error + 's" where
  "forEach f [] s = Inr s"
| "forEach f (x # xs) s = (case f x s of Inl e \<Rightarrow> Inl e | Inr s' \<Rightarrow> forEach f xs s')"

section \<open>Declaration bundler: stripImportsExports\<close>

text \<open>Decimal digits of a number, as a template literal prints it.\<close>

definition digit :: "nat \<Rightarrow> char" where
  "digit d = char_of (48 + d)"

function showNat :: "nat \<Rightarrow> string" where
  "showNat n = (if n < 10 then [digit n] else showNat (n div 10) @ [digit (n mod 10)])"
  by pat_completeness auto
termination
  by (relation "measure id") auto

declare showNat.simps [simp del]

text \<open>The key of the rename map: \<open>`${name}:${modulePath}`\<close>.\<close>

definition renameKey :: "string \<Rightarrow> string \<Rightarrow> string" where
  "renameKey name modulePath = name @ '':'' @ modulePath"

text \<open>
  \<open>moduleRenames\<close>: the renames of this module's own identifiers, types first; an empty
  replacement counts as none.
\<close>

definition addModuleRename ::
  "(string \<times> string) list \<Rightarrow> string \<Rightarrow> string \<Rightarrow> (string \<times> string) list \<Rightarrow> (string \<times> string) list"
where
  "addModuleRename renameMap modulePath name moduleRenames =
     (case map_of renameMap (renameKey name modulePath) of
        Some renamed \<Rightarrow> if renamed \<noteq> [] then mapSet name renamed moduleRenames else moduleRenames
      | None \<Rightarrow> moduleRenames)"

definition moduleRenamesOf :: "(string \<times> string) list \<Rightarrow> IdentifierMap \<Rightarrow> string \<Rightarrow> (string \<times> string) list" where
  "moduleRenamesOf renameMap ids modulePath =
     fold (addModuleRename renameMap modulePath) (typeIdentifiers ids @ valueIdentifiers ids) []"

definition exportsMapper :: "(string \<times> string) list \<Rightarrow> string \<Rightarrow> string" where
  "exportsMapper moduleRenames name = (case map_of moduleRenames name of Some r \<Rightarrow> r | None \<Rightarrow> name)"

text \<open>
  The lists the loop over the statements collects: external imports, type exports and
  value exports, before renaming.
\<close>

record Collected =
  collectedImports :: "string list"
  collectedTypes :: "string list"
  collectedValues :: "string list"

text \<open>\<open>propertyName?.text ?? name.text\<close> of an export element.\<close>

definition localName :: "string \<times> string option \<Rightarrow> string" where
  "localName element = (case snd element of Some propertyName \<Rightarrow> propertyName | None \<Rightarrow> fst element)"

definition categorize :: "IdentifierMap \<Rightarrow> Collected \<Rightarrow> string \<times> string option \<Rightarrow> Collected" where
  "categorize ids c element =
     (if localName element \<in> set (valueIdentifiers ids)
      then c\<lparr>collectedValues := collectedValues c @ [localName element]\<rparr>
      else if localName element \<in> set (typeIdentifiers ids)
      then c\<lparr>collectedTypes := collectedTypes c @ [localName element]\<rparr>
      else c\<lparr>collectedValues := collectedValues c @ [localName element]\<rparr>)"

text \<open>
  The body of the loop over the statements: what it collects and what it removes from
  the buffer. A throw of the buffer is a throw of the loop.
\<close>

fun stripStatement ::
  "DtsBundleOptions \<Rightarrow> string \<Rightarrow> IdentifierMap \<Rightarrow> string list \<Rightarrow> Statement \<Rightarrow> Collected \<times> MagicString
     \<Rightarrow> error + Collected \<times> MagicString"
where
  "stripStatement opts codeText ids bundledImportPaths
       (Statement (ImportDeclaration moduleSpecifier) p e idents) (c, magic) =
     (let c' = (if isExternal opts moduleSpecifier \<or> moduleSpecifier \<notin> set bundledImportPaths
                then c\<lparr>collectedImports := collectedImports c @ [trim (sliceRange codeText p e)]\<rparr>
                else c)
      in case magicRemove p e magic of Inl err \<Rightarrow> Inl err | Inr magic' \<Rightarrow> Inr (c', magic'))"
| "stripStatement opts codeText ids bundledImportPaths
       (Statement (ExportDeclaration (Some moduleSpecifier) clause) p e idents) (c, magic) =
     (case magicRemove p e magic of Inl err \<Rightarrow> Inl err | Inr magic' \<Rightarrow> Inr (c, magic'))"
| "stripStatement opts codeText ids bundledImportPaths
       (Statement (ExportDeclaration None (Some elements)) p e idents) (c, magic) =
     (if length elements > 0
      then (case magicRemove p e magic of
              Inl err \<Rightarrow> Inl err
            | Inr magic' \<Rightarrow> Inr (fold (\<lambda>element acc. categorize ids acc element) elements c, magic'))
      else Inr (c, magic))"
| "stripStatement opts codeText ids bundledImportPaths
       (Statement ExportAssignment p e idents) (c, magic) =
     (case magicRemove p e magic of Inl err \<Rightarrow> Inl err | Inr magic' \<Rightarrow> Inr (c, magic'))"
| "stripStatement opts codeText ids bundledImportPaths statement (c, magic) = Inr (c, magic)"

text \<open>
  The visit of one identifier node by the renaming walk:
  \<open>magic.overwrite(node.pos, node.end, renamed)\<close> when the module renames its text.
\<close>

fun renameIdentifier :: "(string \<times> string) list \<Rightarrow> IdentifierNode \<Rightarrow> MagicString \<Rightarrow> error + MagicString" where
  "renameIdentifier moduleRenames (IdentifierNode p e name) magic =
     (case map_of moduleRenames name of
        Some renamed \<Rightarrow> if renamed \<noteq> [] then magicOverwrite p e renamed magic else Inr magic
      | None \<Rightarrow> Inr magic)"

text \<open>The result of \<open>stripImportsExports\<close>; \<open>strippedCode\<close> is what the buffer prints.\<close>

record DeclarationCode =
  strippedCode :: string
  externalImports :: "string list"
  typeExports :: "string list"
  valueExports :: "string list"

definition stripImportsExports ::
  "DtsBundleOptions \<Rightarrow> string \<Rightarrow> Statement list \<Rightarrow> IdentifierMap \<Rightarrow> string list
     \<Rightarrow> (string \<times> string) list \<Rightarrow> string \<Rightarrow> error + DeclarationCode"
where
  "stripImportsExports opts codeText statements ids bundledImportPaths renameMap modulePath =
     (let moduleRenames = moduleRenamesOf renameMap ids modulePath
      in case forEach (stripStatement opts codeText ids bundledImportPaths) statements
                (\<lparr>collectedImports = [], collectedTypes = [], collectedValues = []\<rparr>,
                 new_MagicString codeText) of
           Inl err \<Rightarrow> Inl err
         | Inr (c, magic) \<Rightarrow>
             (case (if length moduleRenames > 0
                    then forEach (renameIdentifier moduleRenames)
                           (concat (map identifierNodes statements)) magic
                    else Inr magic) of
                Inl err \<Rightarrow> Inl err
              | Inr magic' \<Rightarrow>
                  (let finalValueExports = newSet (map (exportsMapper moduleRenames) (collectedValues c));
                       finalTypeExports = newSet (filter (\<lambda>t. t \<notin> set finalValueExports)
                                                    (map (exportsMapper moduleRenames) (collectedTypes c)))
                   in Inr \<lparr>strippedCode = magicToString magic',
                           externalImports = collectedImports c,
                           typeExports = finalTypeExports,
                           valueExports = finalValueExports\<rparr>)))"

section \<open>Declaration bundler: combineModules\<close>

text \<open>\<open>declarationSources\<close>: for each identifier, the set of paths of the modules declaring it.\<close>

definition addSource :: "string \<Rightarrow> string \<Rightarrow> (string \<times> string list) list \<Rightarrow> (string \<times> string list) list" where
  "addSource modulePath name sources =
     (case map_of sources name of
        None \<Rightarrow> mapSet name [modulePath] sources
      | Some paths \<Rightarrow> mapSet name (setAdd modulePath paths) sources)"

definition declaredNames :: "'a ModuleInfo_scheme \<Rightarrow> string list" where
  "declaredNames m = typeIdentifiers (identifiers m) @ valueIdentifiers (identifiers m)"

definition declarationSources :: "ModuleInfo list \<Rightarrow> (string \<times> string list) list" where
  "declarationSources sortedModules =
     fold (\<lambda>m sources. fold (addSource (path m)) (declaredNames m) sources) sortedModules []"

text \<open>
  The entries the second pass writes for one identifier: none when at most one module
  declares it, else one for each module after the first, numbered from 1.
\<close>

definition renameEntries :: "string \<times> string list \<Rightarrow> (string \<times> string) list" where
  "renameEntries entry =
     (if length (snd entry) > 1
      then map (\<lambda>(index, modulePath).
                  (renameKey (fst entry) modulePath, fst entry @ ''$'' @ showNat (index + 1)))
             (enumerate 0 (tl (snd entry)))
      else [])"

definition generateRenames :: "(string \<times> string list) list \<Rightarrow> (string \<times> string) list" where
  "generateRenames sources =
     fold (\<lambda>entry renameMap. fold (\<lambda>kv rm. mapSet (fst kv) (snd kv) rm) (renameEntries entry) renameMap)
       sources []"

text \<open>What the third loop of \<open>combineModules\<close> accumulates.\<close>

record Accumulated =
  allTypeReferences :: "string list"
  allFileReferences :: "string list"
  allExternalImports :: "string list"
  allTypeExports :: "string list"
  allValueExports :: "string list"
  codeBlocks :: "string list"
  allDeclarationNames :: "string list"

definition bundledForModule :: "(string \<times> string list) list \<Rightarrow> string \<Rightarrow> string list" where
  "bundledForModule bundled p = (case map_of bundled p of Some specs \<Rightarrow> specs | None \<Rightarrow> [])"

text \<open>The body of the third loop; a throw of \<open>stripImportsExports\<close> is a throw of the loop.\<close>

definition accumulateModule ::
  "DtsBundleOptions \<Rightarrow> (string \<times> string list) list \<Rightarrow> (string \<times> string) list \<Rightarrow> ModuleInfo \<Rightarrow> Accumulated
     \<Rightarrow> error + Accumulated"
where
  "accumulateModule opts bundled renameMap m a =
     (case stripImportsExports opts (code m) (sourceFile m) (identifiers m)
             (bundledForModule bundled (path m)) renameMap (path m) of
        Inl err \<Rightarrow> Inl err
      | Inr d \<Rightarrow>
          (let a1 = a\<lparr>allTypeReferences := allTypeReferences a @ typeReferences m,
                      allFileReferences := allFileReferences a @ fileReferences m,
                      allExternalImports := allExternalImports a @ externalImports d\<rparr>;
               a2 = (if \<not> includesString (path m) nodeModules
                     then a1\<lparr>allValueExports := allValueExports a1 @ valueExports d,
                             allTypeExports := allTypeExports a1 @ typeExports d,
                             allDeclarationNames := setAddAll (declaredNames m) (allDeclarationNames a1)\<rparr>
                     else a1)
           in Inr (if length (trim (strippedCode d)) > 0
                   then a2\<lparr>codeBlocks := codeBlocks a2 @ [trim (strippedCode d)]\<rparr> else a2)))"

definition accumulateModules ::
  "DtsBundleOptions \<Rightarrow> ModuleInfo list \<Rightarrow> (string \<times> string list) list \<Rightarrow> error + Accumulated"
where
  "accumulateModules opts sortedModules bundled =
     forEach (accumulateModule opts bundled (generateRenames (declarationSources sortedModules)))
       sortedModules
       \<lparr>allTypeReferences = [], allFileReferences = [], allExternalImports = [],
        allTypeExports = [], allValueExports = [], codeBlocks = [], allDeclarationNames = []\<rparr>"

text \<open>Export resolution: the two final lists, values first.\<close>

definition finalExports :: "Accumulated \<Rightarrow> string list \<times> string list" where
  "finalExports a =
     (let finalValueExports = newSet (allValueExports a);
          finalTypeExports = newSet (filter (\<lambda>typeExport. typeExport \<notin> set finalValueExports) (allTypeExports a))
      in (finalValueExports, finalTypeExports))"

text \<open>The consolidated export statements at the end of the output, after a blank line.\<close>

definition exportStatements :: "string list \<Rightarrow> string list \<Rightarrow> string list" where
  "exportStatements finalValueExports finalTypeExports =
     (if length finalTypeExports > 0 \<or> length finalValueExports > 0
      then [''''] @ (if length finalValueExports > 0
                   then [''export { '' @ join '', '' (sort finalValueExports) @ '' };''] else [])
           @ (if length finalTypeExports > 0
              then [''export type { '' @ join '', '' (sort finalTypeExports) @ '' };''] else [])
      else [])"

record BundledDeclaration =
  bundledCode :: string
  exports :: "string list"
  allDeclarations :: "string list"

definition combineModules ::
  "DtsBundleOptions \<Rightarrow> ModuleInfo list \<Rightarrow> (string \<times> string list) list \<Rightarrow> error + BundledDeclaration"
where
  "combineModules opts sortedModules bundled =
     (case accumulateModules opts sortedModules bundled of
        Inl err \<Rightarrow> Inl err
      | Inr a \<Rightarrow>
          (let uniqueTypeReferences = newSet (allTypeReferences a);
               uniqueFileReferences = newSet (allFileReferences a);
               mergedExternalImports = mergeImports (allExternalImports a);
               finalValueExports = fst (finalExports a);
               finalTypeExports = snd (finalExports a);
               outputParts =
                 (if length uniqueFileReferences > 0
                  then map (\<lambda>ref. ''/// <reference path='' @ dquote @ ref @ dquote @ '' />'') uniqueFileReferences @ ['''']
                  else [])
                 @ (if length uniqueTypeReferences > 0
                    then map (\<lambda>ref. ''/// <reference types='' @ dquote @ ref @ dquote @ '' />'') uniqueTypeReferences @ ['''']
                    else [])
                 @ (if length mergedExternalImports > 0 then mergedExternalImports @ [''''] else [])
                 @ [join (newLine @ newLine) (codeBlocks a)]
                 @ exportStatements finalValueExports finalTypeExports
           in Inr \<lparr>bundledCode = join newLine outputParts,
                   exports = sort finalTypeExports @ sort finalValueExports,
                   allDeclarations = allDeclarationNames a\<rparr>))"

text \<open>
  The identifier that stands for \<open>name\<close> of module \<open>m\<close> in the bundle: both the rewrite of
  identifier occurrences and the export lists look \<open>name\<close> up in \<open>moduleRenames\<close>.
\<close>

definition finalName :: "(string \<times> string) list \<Rightarrow> ModuleInfo \<Rightarrow> string \<Rightarrow> string" where
  "finalName renameMap m name = exportsMapper (moduleRenamesOf renameMap (identifiers m) (path m)) name"

text \<open>The modules that declare \<open>name\<close> at top level, in the order they are combined.\<close>

definition declaringModules :: "ModuleInfo list \<Rightarrow> string \<Rightarrow> ModuleInfo list" where
  "declaringModules sortedModules name = filter (\<lambda>m. name \<in> set (declaredNames m)) sortedModules"

text \<open>The paths recorded for an identifier, none when it has no entry.\<close>

definition sourcesOf :: "(string \<times> string list) list \<Rightarrow> string \<Rightarrow> string list" where
  "sourcesOf sources name = (case map_of sources name of None \<Rightarrow> [] | Some paths \<Rightarrow> paths)"

text \<open>Reading a decimal numeral back; used to show that \<open>showNat\<close> is injective.\<close>

definition readNat :: "string \<Rightarrow> nat" where
  "readNat s = foldl (\<lambda>a c. 10 * a + (of_char c - 48)) 0 s"

text \<open>The step of the first pass of \<open>combineModules\<close> for one module.\<close>

definition sourceStep :: "ModuleInfo \<Rightarrow> (string \<times> string list) list \<Rightarrow> (string \<times> string list) list" where
  "sourceStep m sources = fold (addSource (path m)) (declaredNames m) sources"

text \<open>
  For the statement of what a module exports. \<open>exportedLocals\<close> lists the local names of
  the elements of a module's standalone export declarations, in order. Such a name is
  exported as a value when the module declares it as a value or does not declare it at
  all, and as a type when the module declares it as a type only. \<open>projectModules\<close> are
  the modules whose exports the composer collects: those outside \<open>node_modules\<close>.
\<close>

fun exportedLocalsOf :: "Node \<Rightarrow> string list" where
  "exportedLocalsOf (ExportDeclaration None (Some elements)) = map localName elements"
| "exportedLocalsOf n = []"

definition exportedLocals :: "ModuleInfo \<Rightarrow> string list" where
  "exportedLocals m = concat (map (\<lambda>statement. exportedLocalsOf (statementNode statement)) (sourceFile m))"

definition exportedAsValue :: "ModuleInfo \<Rightarrow> string \<Rightarrow> bool" where
  "exportedAsValue m name =
     (name \<in> set (exportedLocals m)
      \<and> (name \<in> set (valueIdentifiers (identifiers m)) \<or> name \<notin> set (typeIdentifiers (identifiers m))))"

definition exportedAsType :: "ModuleInfo \<Rightarrow> string \<Rightarrow> bool" where
  "exportedAsType m name =
     (name \<in> set (exportedLocals m)
      \<and> name \<notin> set (valueIdentifiers (identifiers m)) \<and> name \<in> set (typeIdentifiers (identifiers m)))"

definition projectModules :: "ModuleInfo list \<Rightarrow> ModuleInfo list" where
  "projectModules sortedModules = filter (\<lambda>m. \<not> includesString (path m) nodeModules) sortedModules"

section \<open>DeclarationProcessor.postProcess\<close>





definition DTS :: string where
  "DTS = ''.d.ts''"

definition JS :: string where
  "JS = ''.js''"

text \<open>\<open>text.slice(0, -k)\<close>.\<close>

definition sliceEnd :: "string \<Rightarrow> nat \<Rightarrow> string" where
  "sliceEnd s k = take (length s - k) s"

text \<open>
  The replacement \<open>visitNode\<close> pushes for a module specifier, if any: the guard and the
  conditional expression of the source.
\<close>

definition specifierReplacement :: "string \<Rightarrow> string option" where
  "specifierReplacement text =
     (if startsWith text ''.'' \<and> endsWith text DTS
      then Some (if endsWith text ''.d.tsx'' then sliceEnd text 6 @ JS else sliceEnd text 5 @ JS)
      else None)"










section \<open>DeclarationProcessor.preProcess on import declarations\<close>

text \<open>
  The part of \<open>preProcess\<close> that handles import declarations, on a source file all of
  whose statements are import declarations and that has no triple-slash directive. On
  such a file the rest of \<open>preProcess\<close> does nothing: pass 2 finds no inline import and
  no nameless default export, no name range is recorded, and no export is appended.

  An import declaration is given by \<open>getStart()\<close>, \<open>getEnd()\<close> and whether the phase
  modifier of its clause is the \<open>type\<close> keyword (\<open>import type ...\<close>).
\<close>

record ImportNode =
  importStart :: nat
  importEnd :: nat
  typePhase :: bool

record ImportsSourceFile =
  fullText :: string
  importNodes :: "ImportNode list"

definition isWordChar :: "char \<Rightarrow> bool" where
  "isWordChar c =
     ((CHR ''a'' \<le> c \<and> c \<le> CHR ''z'') \<or> (CHR ''A'' \<le> c \<and> c \<le> CHR ''Z'')
      \<or> (CHR ''0'' \<le> c \<and> c \<le> CHR ''9'') \<or> c = CHR ''_'')"

text \<open>
  \<open>getTrailingWhitespaceLength(start, end)\<close>: the blanks, tabs, newlines and carriage
  returns of the original text from \<open>start\<close> on, up to \<open>end\<close>.
\<close>

definition getTrailingWhitespaceLength :: "string \<Rightarrow> nat \<Rightarrow> nat \<Rightarrow> nat" where
  "getTrailingWhitespaceLength original start end' =
     length (takeWhile (\<lambda>c. c = CHR '' '' \<or> c = CHR 0x09 \<or> c = CHR 0x0A \<or> c = CHR 0x0D)
               (take (end' - start) (drop start original)))"

text \<open>
  The index of the first match of \<open>typeMatcher\<close>, \<^verbatim>\<open>/\btype\b/\<close>, in a string: \<open>type\<close>
  with no word character before and none after.
\<close>

fun typeMatcherIndex :: "nat \<Rightarrow> bool \<Rightarrow> string \<Rightarrow> nat option" where
  "typeMatcherIndex pos previousIsWord [] = None"
| "typeMatcherIndex pos previousIsWord (c # cs) =
     (if \<not> previousIsWord \<and> startsWith (c # cs) ''type''
         \<and> (case drop 3 cs of [] \<Rightarrow> True | d # rest \<Rightarrow> \<not> isWordChar d)
      then Some pos
      else typeMatcherIndex (pos + 1) (isWordChar c) cs)"

text \<open>
  The successive matches of \<open>inlineTypePattern\<close>, \<^verbatim>\<open>/([{,]\s+)type\s+/g\<close>, in a string, as
  the \<open>exec\<close> loop finds them: for each match its index and the length of its first group.
  \<open>skip\<close> counts the characters of the last match that are still to be passed.
\<close>

fun inlineTypeMatches :: "nat \<Rightarrow> nat \<Rightarrow> string \<Rightarrow> (nat \<times> nat) list" where
  "inlineTypeMatches pos skip [] = []"
| "inlineTypeMatches pos skip (c # cs) =
     (if skip > 0 then inlineTypeMatches (pos + 1) (skip - 1) cs
      else if c = CHR ''{'' \<or> c = CHR '',''
      then (let ws1 = takeWhile isSpace cs;
                r = drop (length ws1) cs;
                ws2 = takeWhile isSpace (drop 4 r)
            in if ws1 \<noteq> [] \<and> startsWith r ''type'' \<and> ws2 \<noteq> []
               then (pos, 1 + length ws1) # inlineTypeMatches (pos + 1) (length ws1 + 4 + length ws2) cs
               else inlineTypeMatches (pos + 1) 0 cs)
      else inlineTypeMatches (pos + 1) 0 cs)"

text \<open>The ranges pass 1 removes for one import declaration.\<close>

definition importRemovals :: "string \<Rightarrow> ImportNode \<Rightarrow> (nat \<times> nat) list" where
  "importRemovals original node =
     (if typePhase node
      then (let importKeywordEnd = importStart node + length ''import''
            in case typeMatcherIndex 0 False (sliceRange original importKeywordEnd (importEnd node)) of
                 Some index \<Rightarrow>
                   (let typeKeywordStart = importKeywordEnd + index;
                        typeKeywordEnd = typeKeywordStart + length ''type''
                    in [(typeKeywordStart,
                         typeKeywordEnd + getTrailingWhitespaceLength original typeKeywordEnd (importEnd node))])
               | None \<Rightarrow> [])
      else map (\<lambda>(index, group1).
                  (let typeKeywordStart = importStart node + index + group1;
                       typeKeywordEnd = typeKeywordStart + length ''type''
                   in (typeKeywordStart,
                       typeKeywordEnd + getTrailingWhitespaceLength original typeKeywordEnd (importEnd node))))
             (inlineTypeMatches 0 0 (sliceRange original (importStart node) (importEnd node))))"

text \<open>
  The edit buffer after \<open>remove(a, b)\<close> for each of the given ranges of the original text,
  printed: the characters of the original that lie in none of the ranges.
\<close>

definition removeRanges :: "string \<Rightarrow> (nat \<times> nat) list \<Rightarrow> string" where
  "removeRanges original ranges =
     map snd (filter (\<lambda>(i, c). \<not> list_ex (\<lambda>(a, b). a \<le> i \<and> i < b) ranges) (enumerate 0 original))"

definition preProcess :: "ImportsSourceFile \<Rightarrow> CachedDeclaration" where
  "preProcess src =
     \<lparr>code = removeRanges (fullText src)
               (concat (map (importRemovals (fullText src)) (importNodes src))),
      typeReferences = [], fileReferences = []\<rparr>"

section \<open>Declaration bundler: module resolution\<close>

text \<open>
  What the bundler uses from outside the repository. \<open>resolvePath\<close>, \<open>fileExists\<close> and
  \<open>readFile\<close> are those of the compiler's \<open>sys\<close>. \<open>createSourceFile\<close> gives the
  statements of a parsed text. \<open>preProcessFile\<close> is \<open>DeclarationProcessor.preProcess\<close>
  applied to the parsed text; it may throw. \<open>resolveModuleName\<close> is the compiler's
  resolver run with the bundler's resolution host: it is given the declaration store,
  which the host's \<open>readFile\<close> may extend, a specifier and the containing file, and it
  may throw through the host. \<open>remapToOutDir\<close> is the path arithmetic of the \<open>rootDir\<close>
  branch of \<open>sourceToDeclarationPath\<close>:
  \<open>posix.normalize(Paths.join(outDir, Paths.relative(rootDir, s) + '.d.ts'))\<close>.
\<close>

record Host =
  resolvePath :: "string \<Rightarrow> string"
  fileExists :: "string \<Rightarrow> bool"
  readFile :: "string \<Rightarrow> string option"
  createSourceFile :: "string \<Rightarrow> string \<Rightarrow> Statement list"
  preProcessFile :: "string \<Rightarrow> string \<Rightarrow> error + CachedDeclaration"
  resolveModuleName ::
    "(string \<times> CachedDeclaration) list \<Rightarrow> string \<Rightarrow> string
       \<Rightarrow> error + (string option \<times> (string \<times> CachedDeclaration) list)"
  remapToOutDir :: "string \<Rightarrow> string"

text \<open>The two maps of a bundler instance, and what \<open>buildModuleGraph\<close> adds for one call.\<close>

record BundlerState =
  bundlerFiles :: "(string \<times> CachedDeclaration) list"
  moduleResolutionCache :: "(string \<times> string) list"

record GraphState = BundlerState +
  visited :: "string list"
  modules :: "(string \<times> ModuleInfo) list"
  bundledSpecifiers :: "(string \<times> string list) list"

definition hasKey :: "('k \<times> 'v) list \<Rightarrow> 'k \<Rightarrow> bool" where
  "hasKey m k = (map_of m k \<noteq> None)"

text \<open>The constructor stores every declaration under its resolved path.\<close>

definition new_DeclarationBundler :: "Host \<Rightarrow> (string \<times> CachedDeclaration) list \<Rightarrow> BundlerState" where
  "new_DeclarationBundler h declarations =
     \<lparr>bundlerFiles = fold (\<lambda>(filePath, cachedDecl) m. mapSet (resolvePath h filePath) cachedDecl m) declarations [],
      moduleResolutionCache = []\<rparr>"

text \<open>\<open>s.lastIndexOf('.')\<close>, which is \<open>-1\<close> when there is no dot.\<close>

definition lastIndexOfDot :: "string \<Rightarrow> int" where
  "lastIndexOfDot s =
     (if CHR ''.'' \<in> set s then int (length s) - 1 - int (length (takeWhile (\<lambda>c. c \<noteq> CHR ''.'') (rev s)))
      else - 1)"

text \<open>
  \<open>sourcePath.substring(0, sourcePath.lastIndexOf('.') || sourcePath.length)\<close>: an index
  of 0 is replaced by the length, and a negative end counts as 0.
\<close>

definition sourceWithoutExt :: "string \<Rightarrow> string" where
  "sourceWithoutExt sourcePath =
     (let i = lastIndexOfDot sourcePath
      in if i = 0 then sourcePath else take (nat i) sourcePath)"

fun findDeclarationPath :: "string \<Rightarrow> string \<Rightarrow> string list \<Rightarrow> string option" where
  "findDeclarationPath out withoutExt [] = None"
| "findDeclarationPath out withoutExt (dtsPath # rest) =
     (if \<not> endsWith dtsPath DTS then findDeclarationPath out withoutExt rest
      else let withoutOutDir = (if startsWith dtsPath (out @ ''/'') then drop (length out + 1) dtsPath else dtsPath);
               relativeDtsPath = sliceEnd withoutOutDir (length DTS)
        in if withoutExt = relativeDtsPath \<or> endsWith withoutExt (''/'' @ relativeDtsPath)
           then Some dtsPath
           else findDeclarationPath out withoutExt rest)"

definition sourceToDeclarationPath ::
  "Host \<Rightarrow> DtsBundleOptions \<Rightarrow> (string \<times> CachedDeclaration) list \<Rightarrow> string \<Rightarrow> string"
where
  "sourceToDeclarationPath h opts declarations sourcePath =
     (if rootDirOption opts
      then (let dtsPath = remapToOutDir h (sourceWithoutExt sourcePath)
            in if hasKey declarations dtsPath then dtsPath else sourcePath)
      else (case findDeclarationPath (outDir opts) (sourceWithoutExt sourcePath) (map fst declarations) of
              Some dtsPath \<Rightarrow> dtsPath
            | None \<Rightarrow> sourcePath))"

text \<open>\<open>sourceScriptExtensionExpression\<close>, \<^verbatim>\<open>/(?<!\.d)\.[jt]sx?$/\<close>, tested on a path.\<close>

definition matchesSourceScript :: "string \<Rightarrow> bool" where
  "matchesSourceScript s =
     list_ex (\<lambda>ext. endsWith s ext \<and> \<not> endsWith (sliceEnd s (length ext)) ''.d'')
       [''.js'', ''.jsx'', ''.ts'', ''.tsx'']"

definition cacheKey :: "string \<Rightarrow> string \<Rightarrow> string" where
  "cacheKey importPath containingFile = importPath @ ''|'' @ containingFile"

text \<open>\<open>resolveModule\<close>: the resolved path, if any, and the state with its two maps updated.\<close>

definition resolveModule ::
  "Host \<Rightarrow> DtsBundleOptions \<Rightarrow> GraphState \<Rightarrow> string \<Rightarrow> string \<Rightarrow> error + (string option \<times> GraphState)"
where
  "resolveModule h opts st importPath containingFile =
     (case map_of (moduleResolutionCache st) (cacheKey importPath containingFile) of
        Some cached \<Rightarrow> Inr (Some cached, st)
      | None \<Rightarrow>
          (case resolveModuleName h (bundlerFiles st) importPath containingFile of
             Inl e \<Rightarrow> Inl e
           | Inr (None, declarations) \<Rightarrow> Inr (None, st\<lparr>bundlerFiles := declarations\<rparr>)
           | Inr (Some resolved, declarations) \<Rightarrow>
               (let resolvedFileName =
                      (if pathsOption opts \<and> matchesSourceScript resolved
                       then sourceToDeclarationPath h opts declarations resolved else resolved)
                in Inr (Some resolvedFileName,
                        st\<lparr>bundlerFiles := declarations,
                           moduleResolutionCache :=
                             mapSet (cacheKey importPath containingFile) resolvedFileName
                               (moduleResolutionCache st)\<rparr>))))"

section \<open>Declaration bundler: buildModuleGraph\<close>

fun extractImports :: "Statement list \<Rightarrow> string list" where
  "extractImports [] = []"
| "extractImports (Statement (ImportDeclaration moduleSpecifier) p e idents # rest) =
     moduleSpecifier # extractImports rest"
| "extractImports (Statement (ExportDeclaration (Some moduleSpecifier) clause) p e idents # rest) =
     moduleSpecifier # extractImports rest"
| "extractImports (statement # rest) = extractImports rest"

text \<open>
  The load of a resolved file that is not in the store yet, when \<open>resolve\<close> is on and the
  file can be read; pre-processing it may throw.
\<close>

definition loadResolved :: "Host \<Rightarrow> DtsBundleOptions \<Rightarrow> string option \<Rightarrow> GraphState \<Rightarrow> error + GraphState" where
  "loadResolved h opts resolvedPath st =
     (case resolvedPath of
        None \<Rightarrow> Inr st
      | Some rp \<Rightarrow>
          if \<not> hasKey (bundlerFiles st) rp \<and> resolveOption opts \<and> fileExists h rp
          then (case readFile h rp of
                  None \<Rightarrow> Inr st
                | Some rawContent \<Rightarrow>
                    (case preProcessFile h rp rawContent of
                       Inl e \<Rightarrow> Inl e
                     | Inr d \<Rightarrow> Inr (st\<lparr>bundlerFiles := mapSet rp d (bundlerFiles st)\<rparr>)))
          else Inr st)"

text \<open>
  The test that skips a package of \<open>node_modules\<close> unless \<open>noExternal\<close> lists it:
  \<open>resolvedPath?.includes(nodeModules) && !this.matchesPattern(specifier, noExternal)\<close>.
\<close>

definition skipsNodeModules :: "DtsBundleOptions \<Rightarrow> string \<Rightarrow> string option \<Rightarrow> bool" where
  "skipsNodeModules opts specifier resolvedPath =
     ((case resolvedPath of Some rp \<Rightarrow> includesString rp nodeModules | None \<Rightarrow> False)
      \<and> \<not> matchesPattern specifier (noExternal opts))"

definition newModule :: "Host \<Rightarrow> string \<Rightarrow> CachedDeclaration \<Rightarrow> ModuleInfo" where
  "newModule h p cached =
     \<lparr>code = code cached,
      typeReferences = newSet (typeReferences cached),
      fileReferences = newSet (fileReferences cached),
      path = p, importPaths = [],
      sourceFile = createSourceFile h p (code cached),
      identifiers = collectIdentifiers (map statementNode (createSourceFile h p (code cached)))\<rparr>"

text \<open>
  The recursive \<open>visit\<close> of \<open>buildModuleGraph\<close> and the loop over the specifiers of one
  module. The first argument bounds the depth of nested visits: \<open>None\<close> means that the
  bound was reached. A throw is an \<open>Inl\<close>.
\<close>

fun visit :: "nat \<Rightarrow> Host \<Rightarrow> DtsBundleOptions \<Rightarrow> string \<Rightarrow> GraphState \<Rightarrow> (error + GraphState) option"
  and visitImports ::
    "nat \<Rightarrow> Host \<Rightarrow> DtsBundleOptions \<Rightarrow> string \<Rightarrow> string list \<Rightarrow> ModuleInfo \<times> string list \<Rightarrow> GraphState
       \<Rightarrow> (error + ((ModuleInfo \<times> string list) \<times> GraphState)) option"
where
  "visit 0 h opts p st = None"
| "visit (Suc n) h opts p st =
     (let p' = resolvePath h p
      in if p' \<in> set (visited st) then Some (Inr st)
         else (let st1 = st\<lparr>visited := visited st @ [p']\<rparr>
               in case map_of (bundlerFiles st1) p' of
                    None \<Rightarrow> Some (Inr st1)
                  | Some cached \<Rightarrow>
                      (case visitImports n h opts p'
                              (extractImports (createSourceFile h p' (code cached)))
                              (newModule h p' cached, []) st1 of
                         None \<Rightarrow> None
                       | Some (Inl e) \<Rightarrow> Some (Inl e)
                       | Some (Inr ((module, bundledSpecs), st2)) \<Rightarrow>
                           Some (Inr (st2\<lparr>modules := mapSet p' module (modules st2),
                                         bundledSpecifiers := mapSet p' bundledSpecs (bundledSpecifiers st2)\<rparr>)))))"
| "visitImports n h opts p [] acc st = Some (Inr (acc, st))"
| "visitImports n h opts p (specifier # rest) acc st =
     (if isExternal opts specifier then visitImports n h opts p rest acc st
      else (case resolveModule h opts st specifier p of
              Inl e \<Rightarrow> Some (Inl e)
            | Inr (resolvedPath, st1) \<Rightarrow>
                if skipsNodeModules opts specifier resolvedPath
                then visitImports n h opts p rest acc st1
                else (case loadResolved h opts resolvedPath st1 of
                        Inl e \<Rightarrow> Some (Inl e)
                      | Inr st2 \<Rightarrow>
                          (case resolvedPath of
                             None \<Rightarrow> visitImports n h opts p rest acc st2
                           | Some rp \<Rightarrow>
                               if hasKey (bundlerFiles st2) rp
                               then (case visit n h opts rp st2 of
                                       None \<Rightarrow> None
                                     | Some (Inl e) \<Rightarrow> Some (Inl e)
                                     | Some (Inr st3) \<Rightarrow>
                                         visitImports n h opts p rest
                                           ((fst acc)\<lparr>importPaths := setAdd rp (importPaths (fst acc))\<rparr>,
                                            snd acc @ [specifier]) st3)
                               else visitImports n h opts p rest acc st2))))"

text \<open>\<open>buildModuleGraph\<close>: the two maps of the graph and the bundler's maps after the walk.\<close>

definition buildModuleGraph ::
  "nat \<Rightarrow> Host \<Rightarrow> DtsBundleOptions \<Rightarrow> BundlerState \<Rightarrow> string \<Rightarrow> (error + GraphState) option"
where
  "buildModuleGraph fuel h opts b entryPoint =
     visit fuel h opts entryPoint
       \<lparr>bundlerFiles = bundlerFiles b, moduleResolutionCache = moduleResolutionCache b,
        visited = [], modules = [], bundledSpecifiers = []\<rparr>"

section \<open>Declaration bundler: what the graph walk maintains\<close>

definition keysOf :: "('k \<times> 'v) list \<Rightarrow> 'k set" where
  "keysOf m = fst ` set m"

text \<open>
  The assumption on the outside: \<open>resolvePath\<close> is idempotent, and the resolver returns
  paths that \<open>resolvePath\<close> leaves as they are, keeps every file of the store, and adds
  files only under such paths. This is how the compiler's resolver and \<open>path.resolve\<close>
  behave on normalized absolute paths.
\<close>

definition normalizedResolver :: "Host \<Rightarrow> bool" where
  "normalizedResolver h =
     ((\<forall>x. resolvePath h (resolvePath h x) = resolvePath h x)
      \<and> (\<forall>ds s p r ds'. resolveModuleName h ds s p = Inr (r, ds') \<longrightarrow>
            (\<forall>x. r = Some x \<longrightarrow> resolvePath h x = x)
            \<and> keysOf ds \<subseteq> keysOf ds'
            \<and> (\<forall>k \<in> keysOf ds'. k \<in> keysOf ds \<or> resolvePath h k = k)))"

text \<open>
  The invariant of the walk, for the set \<open>S\<close> of modules whose visit has started and not
  ended: store keys and cached resolutions are resolved paths; the imports of a finished
  module have been visited; a visited path is a finished module or in \<open>S\<close>; and every
  bundled specifier of a finished module has a cached resolution that has been visited.
\<close>

definition graphInv :: "Host \<Rightarrow> string set \<Rightarrow> GraphState \<Rightarrow> bool" where
  "graphInv h S st =
     ((\<forall>k \<in> keysOf (bundlerFiles st). resolvePath h k = k)
      \<and> (\<forall>k v. map_of (moduleResolutionCache st) k = Some v \<longrightarrow> resolvePath h v = v)
      \<and> (\<forall>p m. map_of (modules st) p = Some m \<longrightarrow> set (importPaths m) \<subseteq> set (visited st))
      \<and> set (visited st) \<subseteq> keysOf (modules st) \<union> S
      \<and> (\<forall>p specs. map_of (bundledSpecifiers st) p = Some specs \<longrightarrow>
            (\<forall>s \<in> set specs. \<exists>rp. map_of (moduleResolutionCache st) (cacheKey s p) = Some rp
                                  \<and> rp \<in> set (visited st))))"

text \<open>The same for the module under construction and its bundled specifiers.\<close>

definition accInv :: "string \<Rightarrow> ModuleInfo \<times> string list \<Rightarrow> GraphState \<Rightarrow> bool" where
  "accInv p acc st =
     (set (importPaths (fst acc)) \<subseteq> set (visited st)
      \<and> (\<forall>s \<in> set (snd acc). \<exists>rp. map_of (moduleResolutionCache st) (cacheKey s p) = Some rp
                                    \<and> rp \<in> set (visited st)))"

text \<open>A later state of the walk: nothing visited, cached or stored is lost.\<close>

definition extends :: "GraphState \<Rightarrow> GraphState \<Rightarrow> bool" where
  "extends st st' =
     (set (visited st) \<subseteq> set (visited st')
      \<and> (\<forall>k v. map_of (moduleResolutionCache st) k = Some v \<longrightarrow> map_of (moduleResolutionCache st') k = Some v)
      \<and> keysOf (bundlerFiles st) \<subseteq> keysOf (bundlerFiles st'))"

text \<open>The import relation of a graph: \<open>p\<close> is a module and \<open>q\<close> is one of its imports.\<close>

definition importsOf :: "GraphState \<Rightarrow> (string \<times> string) set" where
  "importsOf st = {(p, q). \<exists>m. map_of (modules st) p = Some m \<and> q \<in> set (importPaths m)}"

text \<open>
  What holds of a bundler between two calls: its store keys and its cached resolutions
  are resolved paths.
\<close>

definition bundlerNormalized :: "Host \<Rightarrow> BundlerState \<Rightarrow> bool" where
  "bundlerNormalized h b =
     ((\<forall>k \<in> keysOf (bundlerFiles b). resolvePath h k = k)
      \<and> (\<forall>k v. map_of (moduleResolutionCache b) k = Some v \<longrightarrow> resolvePath h v = v))"

section \<open>Worked examples\<close>

text \<open>
  An entry module that imports one project module. The store holds \<open>index.d.ts\<close>, which
  imports \<open>User\<close> from \<open>./types\<close> and exports it, and \<open>types.d.ts\<close>, which declares the
  interface and exports it. Paths are already resolved, nothing is read from disk, and
  the resolver knows the one specifier. The statements are those of the parsed codes,
  with the positions the parser gives them.
\<close>

definition indexCode :: string where
  "indexCode = ''import { User } from '' @ dquote @ ''./types'' @ dquote @ '';'' @ newLine @ ''export { User };''"

definition indexStatements :: "Statement list" where
  "indexStatements =
     [Statement (ImportDeclaration ''./types'') 0 31 [IdentifierNode 8 13 ''User''],
      Statement (ExportDeclaration None (Some [(''User'', None)])) 31 48 [IdentifierNode 40 45 ''User'']]"

definition typesCode :: string where
  "typesCode = ''interface User { name: string }'' @ newLine @ ''export { User };''"

definition typesStatements :: "Statement list" where
  "typesStatements =
     [Statement (InterfaceDeclaration ''User'') 0 31 [IdentifierNode 9 14 ''User'', IdentifierNode 16 21 ''name''],
      Statement (ExportDeclaration None (Some [(''User'', None)])) 31 48 [IdentifierNode 40 45 ''User'']]"

definition exampleHost :: Host where
  "exampleHost =
     \<lparr>resolvePath = (\<lambda>x. x), fileExists = (\<lambda>x. False), readFile = (\<lambda>x. None),
      createSourceFile = (\<lambda>p c. if p = ''/p/dist/index.d.ts'' then indexStatements else typesStatements),
      preProcessFile = (\<lambda>p t. Inl (UnsupportedSyntaxError [])),
      resolveModuleName = (\<lambda>ds s p. Inr (if s = ''./types'' then Some ''/p/dist/types.d.ts'' else None, ds)),
      remapToOutDir = (\<lambda>s. s)\<rparr>"

definition exampleOptions :: DtsBundleOptions where
  "exampleOptions =
     \<lparr>resolveOption = False, external = [], noExternal = [], pathsOption = False,
      rootDirOption = False, outDir = ''/p/dist''\<rparr>"

definition exampleDeclarations :: "(string \<times> CachedDeclaration) list" where
  "exampleDeclarations =
     [(''/p/dist/index.d.ts'', \<lparr>code = indexCode, typeReferences = [], fileReferences = []\<rparr>),
      (''/p/dist/types.d.ts'', \<lparr>code = typesCode, typeReferences = [], fileReferences = []\<rparr>)]"

definition typesModule :: ModuleInfo where
  "typesModule =
     \<lparr>code = typesCode, typeReferences = [], fileReferences = [],
      path = ''/p/dist/types.d.ts'', importPaths = [],
      sourceFile = typesStatements,
      identifiers = \<lparr>typeIdentifiers = [''User''], valueIdentifiers = []\<rparr>\<rparr>"

definition indexModule :: ModuleInfo where
  "indexModule =
     \<lparr>code = indexCode, typeReferences = [], fileReferences = [],
      path = ''/p/dist/index.d.ts'', importPaths = [''/p/dist/types.d.ts''],
      sourceFile = indexStatements,
      identifiers = \<lparr>typeIdentifiers = [], valueIdentifiers = []\<rparr>\<rparr>"

definition exampleGraph :: GraphState where
  "exampleGraph =
     \<lparr>bundlerFiles = exampleDeclarations,
      moduleResolutionCache = [(''./types|/p/dist/index.d.ts'', ''/p/dist/types.d.ts'')],
      visited = [''/p/dist/index.d.ts'', ''/p/dist/types.d.ts''],
      modules = [(''/p/dist/types.d.ts'', typesModule), (''/p/dist/index.d.ts'', indexModule)],
      bundledSpecifiers = [(''/p/dist/types.d.ts'', []), (''/p/dist/index.d.ts'', [''./types''])]\<rparr>"

text \<open>
  Two project modules that declare the same identifier. \<open>a.d.ts\<close> declares the interface
  \<open>Foo\<close> and exports it. The entry \<open>b.d.ts\<close> imports \<open>./a\<close> and declares and exports a
  \<open>Foo\<close> of its own: an interface in \<open>secondFoo\<close>, a class in \<open>classFoo\<close>. The modules
  are listed in the order of \<open>sortModules\<close>, the dependency first.
\<close>

definition firstFoo :: ModuleInfo where
  "firstFoo =
     \<lparr>code = ''interface Foo { a: string }'' @ newLine @ ''export { Foo };'',
      typeReferences = [], fileReferences = [],
      path = ''/p/dist/a.d.ts'', importPaths = [],
      sourceFile =
        [Statement (InterfaceDeclaration ''Foo'') 0 27 [IdentifierNode 9 13 ''Foo'', IdentifierNode 15 17 ''a''],
         Statement (ExportDeclaration None (Some [(''Foo'', None)])) 27 43 [IdentifierNode 36 40 ''Foo'']],
      identifiers = \<lparr>typeIdentifiers = [''Foo''], valueIdentifiers = []\<rparr>\<rparr>"

definition secondFoo :: ModuleInfo where
  "secondFoo =
     \<lparr>code = ''import '' @ dquote @ ''./a'' @ dquote @ '';'' @ newLine
               @ ''interface Foo { b: string }'' @ newLine @ ''export { Foo };'',
      typeReferences = [], fileReferences = [],
      path = ''/p/dist/b.d.ts'', importPaths = [''/p/dist/a.d.ts''],
      sourceFile =
        [Statement (ImportDeclaration ''./a'') 0 13 [],
         Statement (InterfaceDeclaration ''Foo'') 13 41 [IdentifierNode 23 27 ''Foo'', IdentifierNode 29 31 ''b''],
         Statement (ExportDeclaration None (Some [(''Foo'', None)])) 41 57 [IdentifierNode 50 54 ''Foo'']],
      identifiers = \<lparr>typeIdentifiers = [''Foo''], valueIdentifiers = []\<rparr>\<rparr>"

definition classFoo :: ModuleInfo where
  "classFoo =
     \<lparr>code = ''import '' @ dquote @ ''./a'' @ dquote @ '';'' @ newLine
               @ ''declare class Foo { b: string }'' @ newLine @ ''export { Foo };'',
      typeReferences = [], fileReferences = [],
      path = ''/p/dist/b.d.ts'', importPaths = [''/p/dist/a.d.ts''],
      sourceFile =
        [Statement (ImportDeclaration ''./a'') 0 13 [],
         Statement (ClassDeclaration (Some ''Foo'')) 13 45 [IdentifierNode 27 31 ''Foo'', IdentifierNode 33 35 ''b''],
         Statement (ExportDeclaration None (Some [(''Foo'', None)])) 45 61 [IdentifierNode 54 58 ''Foo'']],
      identifiers = \<lparr>typeIdentifiers = [], valueIdentifiers = [''Foo'']\<rparr>\<rparr>"

definition fooBundled :: "(string \<times> string list) list" where
  "fooBundled = [(''/p/dist/a.d.ts'', []), (''/p/dist/b.d.ts'', [''./a''])]"

text \<open>
  An entry module that imports a package, on Windows. There \<open>sys.resolvePath\<close>, which is
  \<open>path.resolve\<close>, writes the separators of an absolute path as backslashes, while the
  compiler's emit and its resolver write forward slashes. The store is built from the
  emitted declaration of the entry, which imports \<open>User\<close> from the package \<open>lib\<close> and
  exports it; the declaration file of \<open>lib\<close> is on disk, and the bundler runs with
  \<open>resolve\<close> on and \<open>lib\<close> in \<open>noExternal\<close>.
\<close>

definition windowsResolve :: "string \<Rightarrow> string" where
  "windowsResolve s = map (\<lambda>c. if c = CHR ''/'' then CHR 0x5C else c) s"

definition libEntryCode :: string where
  "libEntryCode = ''import { User } from '' @ dquote @ ''lib'' @ dquote @ '';'' @ newLine @ ''export { User };''"

definition libEntryStatements :: "Statement list" where
  "libEntryStatements =
     [Statement (ImportDeclaration ''lib'') 0 27 [IdentifierNode 8 13 ''User''],
      Statement (ExportDeclaration None (Some [(''User'', None)])) 27 44 [IdentifierNode 36 41 ''User'']]"

definition libCode :: string where
  "libCode = ''interface User { id: number }'' @ newLine @ ''export { User };''"

definition libStatements :: "Statement list" where
  "libStatements =
     [Statement (InterfaceDeclaration ''User'') 0 29 [IdentifierNode 9 14 ''User'', IdentifierNode 16 19 ''id''],
      Statement (ExportDeclaration None (Some [(''User'', None)])) 29 46 [IdentifierNode 38 43 ''User'']]"

definition windowsHost :: Host where
  "windowsHost =
     \<lparr>resolvePath = windowsResolve,
      fileExists = (\<lambda>x. x = ''C:/p/node_modules/lib/index.d.ts''),
      readFile = (\<lambda>x. if x = ''C:/p/node_modules/lib/index.d.ts'' then Some libCode else None),
      createSourceFile = (\<lambda>p c. if c = libEntryCode then libEntryStatements else libStatements),
      preProcessFile = (\<lambda>p t. Inr \<lparr>code = t, typeReferences = [], fileReferences = []\<rparr>),
      resolveModuleName = (\<lambda>ds s p. Inr (if s = ''lib'' then Some ''C:/p/node_modules/lib/index.d.ts'' else None, ds)),
      remapToOutDir = (\<lambda>s. s)\<rparr>"

definition windowsOptions :: DtsBundleOptions where
  "windowsOptions =
     \<lparr>resolveOption = True, external = [], noExternal = [StringPattern ''lib''], pathsOption = False,
      rootDirOption = False, outDir = ''C:/p/dist''\<rparr>"

definition windowsDeclarations :: "(string \<times> CachedDeclaration) list" where
  "windowsDeclarations =
     [(''C:/p/dist/index.d.ts'', \<lparr>code = libEntryCode, typeReferences = [], fileReferences = []\<rparr>)]"

definition windowsGraph :: GraphState where
  "windowsGraph =
     \<lparr>bundlerFiles =
        [(windowsResolve ''C:/p/dist/index.d.ts'',
          \<lparr>code = libEntryCode, typeReferences = [], fileReferences = []\<rparr>),
         (''C:/p/node_modules/lib/index.d.ts'',
          \<lparr>code = libCode, typeReferences = [], fileReferences = []\<rparr>)],
      moduleResolutionCache =
        [(cacheKey ''lib'' (windowsResolve ''C:/p/dist/index.d.ts''), ''C:/p/node_modules/lib/index.d.ts'')],
      visited = [windowsResolve ''C:/p/dist/index.d.ts'', windowsResolve ''C:/p/node_modules/lib/index.d.ts''],
      modules =
        [(windowsResolve ''C:/p/dist/index.d.ts'',
          \<lparr>code = libEntryCode, typeReferences = [], fileReferences = [],
           path = windowsResolve ''C:/p/dist/index.d.ts'',
           importPaths = [''C:/p/node_modules/lib/index.d.ts''],
           sourceFile = libEntryStatements,
           identifiers = \<lparr>typeIdentifiers = [], valueIdentifiers = []\<rparr>\<rparr>)],
      bundledSpecifiers = [(windowsResolve ''C:/p/dist/index.d.ts'', [''lib''])]\<rparr>"

section \<open>Properties of the cache and the file manager\<close>

lemma fileWriter_cache: "fileWriter pre m p t = Inr m' \<Longrightarrow> cache m' = cache m"
  by (auto simp: fileWriter_def split: if_splits sum.splits option.splits)

lemma fileWriter_flag: "fileWriter pre m p t = Inr m' \<Longrightarrow> hasEmittedFiles m'"
  by (auto simp: fileWriter_def split: if_splits sum.splits option.splits)

lemma initialize_cache: "initialize m = Inr m' \<Longrightarrow> cache m' = cache m"
  by (auto simp: initialize_def Let_def split: option.splits sum.splits)

lemma initialize_flag: "initialize m = Inr m' \<Longrightarrow> \<not> hasEmittedFiles m'"
  by (auto simp: initialize_def Let_def split: option.splits sum.splits)

lemma initialize_without_cache:
  "cache m = None \<Longrightarrow> initialize m = Inr (m\<lparr>hasEmittedFiles := False, declarationFiles := Map.empty\<rparr>)"
  by (simp add: initialize_def Let_def)

lemma runCalls_cache: "runCalls pre m cs = Inr m' \<Longrightarrow> cache m' = cache m"
proof (induction cs arbitrary: m)
  case Nil
  then show ?case by simp
next
  case (Cons c cs)
  show ?case
  proof (cases c)
    case Initialize
    with Cons.prems obtain m1 where
      i: "initialize m = Inr m1" and r: "runCalls pre m1 cs = Inr m'"
      by (auto split: sum.splits)
    from Cons.IH [OF r] initialize_cache [OF i] show ?thesis by simp
  next
    case (FileWriter p t)
    with Cons.prems obtain m1 where
      w: "fileWriter pre m p t = Inr m1" and r: "runCalls pre m1 cs = Inr m'"
      by (auto split: sum.splits)
    from Cons.IH [OF r] fileWriter_cache [OF w] show ?thesis by simp
  qed
qed

text \<open>
  The flag after a run, for a reversed call list so that the induction follows the
  order in which the most recent calls are inspected.
\<close>

lemma runCalls_append:
  "runCalls pre m (cs @ [c]) =
     (case runCalls pre m cs of Inl e \<Rightarrow> Inl e | Inr m1 \<Rightarrow> runCalls pre m1 [c])"
proof (induction cs arbitrary: m)
  case Nil
  then show ?case by (simp split: sum.splits)
next
  case (Cons a cs)
  then show ?case by (cases a) (auto split: sum.splits)
qed

lemma runCalls_flag:
  "runCalls pre m cs = Inr m' \<Longrightarrow>
     hasEmittedFiles m' = (if list_all isFileWriter cs then hasEmittedFiles m \<or> cs \<noteq> []
                           else writtenSinceInitialize cs)"
proof (induction cs arbitrary: m' rule: rev_induct)
  case Nil
  then show ?case by simp
next
  case (snoc c cs)
  from snoc.prems obtain m1 where
    r: "runCalls pre m cs = Inr m1" and l: "runCalls pre m1 [c] = Inr m'"
    by (auto simp: runCalls_append split: sum.splits)
  show ?case
  proof (cases c)
    case Initialize
    with l have "initialize m1 = Inr m'" by (simp split: sum.splits)
    then have "\<not> hasEmittedFiles m'" by (rule initialize_flag)
    with Initialize show ?thesis
      by (simp add: writtenSinceInitialize_def)
  next
    case (FileWriter p t)
    with l have "hasEmittedFiles m'"
      by (auto split: sum.splits dest: fileWriter_flag)
    with FileWriter show ?thesis
      by (simp add: writtenSinceInitialize_def)
  qed
qed

text \<open>
  C3. For every sequence of \<open>initialize\<close>/\<open>fileWriter\<close> calls that runs to its end on a
  freshly constructed manager, \<open>finalize\<close> returns \<open>false\<close> if and only if a cache is
  configured and no \<open>fileWriter\<close> call lies after the most recent \<open>initialize\<close>; without
  a cache it returns \<open>true\<close>; and \<open>cache.save\<close> is called, once and with the current map,
  exactly when a cache is configured and the emitted-flag is set.
\<close>

theorem finalize_false_iff_nothing_written:
  assumes "runCalls pre (new_FileManager buildCache) cs = Inr m"
  shows "((fst (finalize m) = False) = (buildCache \<noteq> None \<and> \<not> writtenSinceInitialize cs))
       \<and> (buildCache = None \<longrightarrow> fst (finalize m))
       \<and> cacheSaves (snd (finalize m)) =
           cacheSaves m @ (if buildCache \<noteq> None \<and> hasEmittedFiles m then [declarationFiles m] else [])"
proof -
  have c: "cache m = buildCache"
    using runCalls_cache [OF assms] by (simp add: new_FileManager_def)
  have f: "hasEmittedFiles m = writtenSinceInitialize cs"
  proof (cases "list_all isFileWriter cs")
    case True
    then have "writtenSinceInitialize cs = (cs \<noteq> [])"
      by (cases "rev cs") (auto simp: writtenSinceInitialize_def list_all_iff)
    with True runCalls_flag [OF assms] show ?thesis
      by (simp add: new_FileManager_def)
  next
    case False
    with runCalls_flag [OF assms] show ?thesis by simp
  qed
  have 1: "(fst (finalize m) = False) = (buildCache \<noteq> None \<and> \<not> writtenSinceInitialize cs)"
    using c f by (auto simp: finalize_def Let_def)
  have 2: "buildCache = None \<longrightarrow> fst (finalize m)"
    using c by (simp add: finalize_def Let_def)
  have 3: "cacheSaves (snd (finalize m)) =
          cacheSaves m @ (if buildCache \<noteq> None \<and> hasEmittedFiles m then [declarationFiles m] else [])"
    using c by (simp add: finalize_def Let_def)
  from 1 2 3 show ?thesis by blast
qed

theorem finalize_false_iff_nothing_written_witness:
  "runCalls (\<lambda>p t. Inr \<lparr>code = t, typeReferences = [], fileReferences = []\<rparr>)
     (new_FileManager (Some \<lparr>buildInfoPath = ''/p/tsconfig.tsbuildinfo'', cacheLoaded = None\<rparr>))
     [FileWriter ''/p/a.d.ts'' ''x'', Initialize]
   = Inr \<lparr>hasEmittedFiles = False,
          declarationFiles = [''/p/a.d.ts'' \<mapsto> \<lparr>code = ''x'', typeReferences = [], fileReferences = []\<rparr>],
          cache = Some \<lparr>buildInfoPath = ''/p/tsconfig.tsbuildinfo'', cacheLoaded = None\<rparr>,
          diskWrites = [], cacheSaves = []\<rparr>
   \<and> fst (finalize \<lparr>hasEmittedFiles = False,
          declarationFiles = [''/p/a.d.ts'' \<mapsto> \<lparr>code = ''x'', typeReferences = [], fileReferences = []\<rparr>],
          cache = Some \<lparr>buildInfoPath = ''/p/tsconfig.tsbuildinfo'', cacheLoaded = None\<rparr>,
          diskWrites = [], cacheSaves = []\<rparr>) = False
   \<and> runCalls (\<lambda>p t. Inr \<lparr>code = t, typeReferences = [], fileReferences = []\<rparr>)
       (new_FileManager None) [Initialize] = Inr (new_FileManager None)
   \<and> fst (finalize (new_FileManager None))"
proof -
  let ?pre = "\<lambda>p t. Inr \<lparr>code = t, typeReferences = [], fileReferences = []\<rparr>"
  let ?c = "\<lparr>buildInfoPath = ''/p/tsconfig.tsbuildinfo'', cacheLoaded = None\<rparr>"
  let ?m = "\<lparr>hasEmittedFiles = False,
          declarationFiles = [''/p/a.d.ts'' \<mapsto> \<lparr>code = ''x'', typeReferences = [], fileReferences = []\<rparr>],
          cache = Some ?c, diskWrites = [], cacheSaves = []\<rparr>"
  have r: "runCalls ?pre (new_FileManager (Some ?c)) [FileWriter ''/p/a.d.ts'' ''x'', Initialize] = Inr ?m"
    by (simp add: new_FileManager_def fileWriter_def isBuildInfoFile_def initialize_def restore_def)
  have "\<not> writtenSinceInitialize [FileWriter ''/p/a.d.ts'' ''x'', Initialize]"
    by (simp add: writtenSinceInitialize_def)
  with finalize_false_iff_nothing_written [OF r] r
  have 1: "runCalls ?pre (new_FileManager (Some ?c)) [FileWriter ''/p/a.d.ts'' ''x'', Initialize] = Inr ?m
             \<and> fst (finalize ?m) = False"
    by simp
  have i: "runCalls ?pre (new_FileManager None) [Initialize] = Inr (new_FileManager None)"
    by (simp add: initialize_def new_FileManager_def)
  from finalize_false_iff_nothing_written [OF i]
  have 2: "fst (finalize (new_FileManager None))" by simp
  from 1 i 2 show ?thesis by simp
qed

text \<open>
  C10. A manager constructed without a build cache never writes to disk in \<open>fileWriter\<close>:
  whatever the path, also the compiler's build-info path, the text is pre-processed and
  the result stored under the path, because \<open>isBuildInfoFile\<close> is only asked of a cache.
\<close>

theorem fileWriter_without_cache:
  assumes "cache m = None"
  shows "fileWriter pre m filePath text =
           (case pre filePath text of
              Inl e \<Rightarrow> Inl e
            | Inr d \<Rightarrow> Inr (m\<lparr>declarationFiles := (declarationFiles m)(filePath \<mapsto> d),
                               hasEmittedFiles := True\<rparr>))
       \<and> (\<forall>m'. fileWriter pre m filePath text = Inr m' \<longrightarrow>
             diskWrites m' = diskWrites m \<and> filePath \<in> dom (declarationFiles m'))"
  using assms by (auto simp: fileWriter_def split: sum.splits)

theorem fileWriter_without_cache_witness:
  "fileWriter (\<lambda>p t. Inr \<lparr>code = t, typeReferences = [], fileReferences = []\<rparr>)
     (new_FileManager None) ''/p/tsconfig.tsbuildinfo'' ''{}''
   = Inr ((new_FileManager None)
       \<lparr>declarationFiles := [''/p/tsconfig.tsbuildinfo'' \<mapsto> \<lparr>code = ''{}'', typeReferences = [], fileReferences = []\<rparr>],
        hasEmittedFiles := True\<rparr>)
   \<and> diskWrites ((new_FileManager None)
       \<lparr>declarationFiles := [''/p/tsconfig.tsbuildinfo'' \<mapsto> \<lparr>code = ''{}'', typeReferences = [], fileReferences = []\<rparr>],
        hasEmittedFiles := True\<rparr>) = []"
  using fileWriter_without_cache [of "new_FileManager None"
      "\<lambda>p t. Inr \<lparr>code = t, typeReferences = [], fileReferences = []\<rparr>"
      "''/p/tsconfig.tsbuildinfo''" "''{}''"]
  by (simp add: new_FileManager_def)






section \<open>Properties of the type-check\<close>

lemma formatDiagnosticsWithColorAndContext_throws:
  "(\<exists>s. formatDiagnosticsWithColorAndContext ctx ds out = Inr s)
     = (\<not> list_ex (\<lambda>d. category d = Suggestion) ds)"
proof (induction ds arbitrary: out)
  case Nil
  show ?case by simp
next
  case (Cons d ds)
  show ?case by (cases "category d") (simp_all add: Cons.IH)
qed

lemma formatDiagnosticsWithColorAndContext_error:
  "formatDiagnosticsWithColorAndContext ctx ds out = Inl e \<Longrightarrow>
     e = PlainError ''Debug Failure. Should never get an Info diagnostic on the command line.''"
proof (induction ds arbitrary: out)
  case Nil
  then show ?case by simp
next
  case (Cons d ds)
  then show ?case by (cases "category d") auto
qed

lemma handleTypeErrors_cases:
  "handleTypeErrors ctx fmt message ds =
     (if list_ex (\<lambda>d. category d = Suggestion) ds
      then PlainError ''Debug Failure. Should never get an Info diagnostic on the command line.''
      else TypeCheckError message (fmt ds))"
proof (cases "formatDiagnosticsWithColorAndContext ctx ds []")
  case (Inl e)
  with formatDiagnosticsWithColorAndContext_throws [of ctx ds "[]"]
    formatDiagnosticsWithColorAndContext_error [OF Inl]
  show ?thesis by (simp add: handleTypeErrors_def)
next
  case (Inr s)
  with formatDiagnosticsWithColorAndContext_throws [of ctx ds "[]"]
  show ?thesis by (simp add: handleTypeErrors_def)
qed

text \<open>
  C5, as stated, fails: in an incremental build in which nothing has changed the emit
  writes no file and returns no diagnostic; the type-check raises nothing and goes on to
  \<open>finalize\<close>, which returns \<open>false\<close>, and the build starts no downstream phase.
\<close>

theorem typeCheck_unchanged_counterexample:
  "typeCheck (\<lambda>p t. Inr \<lparr>code = t, typeReferences = [], fileReferences = []\<rparr>) (\<lambda>d colour. []) (\<lambda>ds. [])
     (new_FileManager (Some \<lparr>buildInfoPath = ''/p/tsconfig.tsbuildinfo'',
        cacheLoaded = Some \<lparr>version = Some 2,
          files = Some [(''/p/dist/a.d.ts'', \<lparr>code = ''x'', typeReferences = [], fileReferences = []\<rparr>)]\<rparr>\<rparr>))
     \<lparr>emitted = [], diagnostics = []\<rparr>
   = Inr (False,
        \<lparr>hasEmittedFiles = False,
         declarationFiles = [''/p/dist/a.d.ts'' \<mapsto> \<lparr>code = ''x'', typeReferences = [], fileReferences = []\<rparr>],
         cache = Some \<lparr>buildInfoPath = ''/p/tsconfig.tsbuildinfo'',
           cacheLoaded = Some \<lparr>version = Some 2,
             files = Some [(''/p/dist/a.d.ts'', \<lparr>code = ''x'', typeReferences = [], fileReferences = []\<rparr>)]\<rparr>\<rparr>,
         diskWrites = [], cacheSaves = []\<rparr>)
   \<and> \<not> hasErrorSeverity []
   \<and> build (\<lambda>p t. Inr \<lparr>code = t, typeReferences = [], fileReferences = []\<rparr>) (\<lambda>d colour. []) (\<lambda>ds. [])
       \<lparr>noEmit = False, force = False, clean = True, declarationOption = True,
        emitDeclarationOnly = False, watch = False\<rparr>
       (new_FileManager (Some \<lparr>buildInfoPath = ''/p/tsconfig.tsbuildinfo'',
          cacheLoaded = Some \<lparr>version = Some 2,
            files = Some [(''/p/dist/a.d.ts'', \<lparr>code = ''x'', typeReferences = [], fileReferences = []\<rparr>)]\<rparr>\<rparr>))
       \<lparr>emitted = [], diagnostics = []\<rparr>
     = ([], None)"
  by (simp add: typeCheck_def build_def initialize_def restore_def finalize_def new_FileManager_def
      hasErrorSeverity_def)

text \<open>
  C5, amended. When \<open>initialize\<close> and the emit's calls of \<open>fileWriter\<close> have not thrown:
  if the compiler returned at least one diagnostic, the type-check throws, the build
  starts no phase (no clean, no declaration bundle, no transpile) and sets exit code 1
  outside watch mode; what is thrown is a \<open>TypeCheckError\<close>, unless a diagnostic of
  suggestion category is among them, on which the compiler's formatter fails first. So
  on diagnostics that are all of error severity a \<open>TypeCheckError\<close> is raised if and only
  if there is at least one of them. With no diagnostic the type-check returns what
  \<open>finalize\<close> returns, and the build starts its phases if and only if that is \<open>true\<close> and
  emitting is not switched off.
\<close>

theorem typeCheck_raises_iff_diagnostics:
  assumes "initialize m = Inr m0" and "emitFiles pre m0 (emitted e) = Inr m1"
  shows "(diagnostics e \<noteq> [] \<longrightarrow>
            typeCheck pre ctx fmt m e =
              Inl (if list_ex (\<lambda>d. category d = Suggestion) (diagnostics e)
                   then PlainError ''Debug Failure. Should never get an Info diagnostic on the command line.''
                   else TypeCheckError ''Type-checking failed'' (fmt (diagnostics e)))
            \<and> build pre ctx fmt opts m e = ([], if watch opts then None else Some 1))
       \<and> ((\<exists>msg d. typeCheck pre ctx fmt m e = Inl (TypeCheckError msg d))
            = (diagnostics e \<noteq> [] \<and> \<not> list_ex (\<lambda>d. category d = Suggestion) (diagnostics e)))
       \<and> ((\<forall>d \<in> set (diagnostics e). category d = Error) \<longrightarrow>
            (\<exists>msg d. typeCheck pre ctx fmt m e = Inl (TypeCheckError msg d))
              = hasErrorSeverity (diagnostics e))
       \<and> (diagnostics e = [] \<longrightarrow>
            typeCheck pre ctx fmt m e = Inr (finalize m1)
            \<and> build pre ctx fmt opts m e =
                (if fst (finalize m1) \<and> (\<not> noEmit opts \<or> force opts) then phasesOf opts else [], None))"
proof -
  let ?ds = "diagnostics e"
  let ?thrown = "if list_ex (\<lambda>d. category d = Suggestion) ?ds
                 then PlainError ''Debug Failure. Should never get an Info diagnostic on the command line.''
                 else TypeCheckError ''Type-checking failed'' (fmt ?ds)"
  have t: "typeCheck pre ctx fmt m e = (if ?ds \<noteq> [] then Inl ?thrown else Inr (finalize m1))"
    using assms by (simp add: typeCheck_def handleTypeErrors_cases)
  have x: "exitCode ?thrown = 1" by simp
  have 1: "?ds \<noteq> [] \<longrightarrow> typeCheck pre ctx fmt m e = Inl ?thrown
            \<and> build pre ctx fmt opts m e = ([], if watch opts then None else Some 1)"
    using t x by (simp add: build_def handleBuildError_def)
  have 2: "(\<exists>msg d. typeCheck pre ctx fmt m e = Inl (TypeCheckError msg d))
            = (?ds \<noteq> [] \<and> \<not> list_ex (\<lambda>d. category d = Suggestion) ?ds)"
    using t by auto
  have 3: "(\<forall>d \<in> set ?ds. category d = Error) \<longrightarrow>
            (\<exists>msg d. typeCheck pre ctx fmt m e = Inl (TypeCheckError msg d)) = hasErrorSeverity ?ds"
  proof
    assume a: "\<forall>d \<in> set ?ds. category d = Error"
    then have "\<not> list_ex (\<lambda>d. category d = Suggestion) ?ds"
      by (auto simp: list_ex_iff)
    moreover from a have "hasErrorSeverity ?ds = (?ds \<noteq> [])"
      by (cases ?ds) (auto simp: hasErrorSeverity_def list_ex_iff)
    ultimately show "(\<exists>msg d. typeCheck pre ctx fmt m e = Inl (TypeCheckError msg d)) = hasErrorSeverity ?ds"
      using 2 by simp
  qed
  have 4: "?ds = [] \<longrightarrow> typeCheck pre ctx fmt m e = Inr (finalize m1)
            \<and> build pre ctx fmt opts m e =
                (if fst (finalize m1) \<and> (\<not> noEmit opts \<or> force opts) then phasesOf opts else [], None)"
    using t by (auto simp: build_def phasesOf_def split: prod.splits)
  from 1 2 3 4 show ?thesis by blast
qed

theorem typeCheck_raises_iff_diagnostics_witness:
  "typeCheck (\<lambda>p t. Inr \<lparr>code = t, typeReferences = [], fileReferences = []\<rparr>) (\<lambda>d colour. []) (\<lambda>ds. ''1 diagnostic'')
     (new_FileManager None)
     \<lparr>emitted = [(''/p/dist/a.d.ts'', ''export declare const a: number;'')],
      diagnostics = [\<lparr>category = Error, diagnosticFile = Some (''/p/src/a.ts'', 0), messageText = ''e''\<rparr>]\<rparr>
   = Inl (TypeCheckError ''Type-checking failed'' ''1 diagnostic'')
   \<and> build (\<lambda>p t. Inr \<lparr>code = t, typeReferences = [], fileReferences = []\<rparr>) (\<lambda>d colour. []) (\<lambda>ds. ''1 diagnostic'')
     \<lparr>noEmit = False, force = False, clean = True, declarationOption = True, emitDeclarationOnly = False, watch = False\<rparr>
     (new_FileManager None)
     \<lparr>emitted = [(''/p/dist/a.d.ts'', ''export declare const a: number;'')],
      diagnostics = [\<lparr>category = Error, diagnosticFile = Some (''/p/src/a.ts'', 0), messageText = ''e''\<rparr>]\<rparr>
   = ([], Some 1)
   \<and> typeCheck (\<lambda>p t. Inr \<lparr>code = t, typeReferences = [], fileReferences = []\<rparr>) (\<lambda>d colour. []) (\<lambda>ds. ''1 diagnostic'')
     (new_FileManager None)
     \<lparr>emitted = [(''/p/dist/a.d.ts'', ''export declare const a: number;'')], diagnostics = []\<rparr>
   = Inr (True,
        \<lparr>hasEmittedFiles = True,
         declarationFiles = [''/p/dist/a.d.ts'' \<mapsto>
           \<lparr>code = ''export declare const a: number;'', typeReferences = [], fileReferences = []\<rparr>],
         cache = None, diskWrites = [], cacheSaves = []\<rparr>)
   \<and> build (\<lambda>p t. Inr \<lparr>code = t, typeReferences = [], fileReferences = []\<rparr>) (\<lambda>d colour. []) (\<lambda>ds. ''1 diagnostic'')
     \<lparr>noEmit = False, force = False, clean = True, declarationOption = True, emitDeclarationOnly = False, watch = False\<rparr>
     (new_FileManager None)
     \<lparr>emitted = [(''/p/dist/a.d.ts'', ''export declare const a: number;'')], diagnostics = []\<rparr>
   = ([Clean, ProcessDeclarations, Transpile], None)"
proof -
  let ?pre = "\<lambda>p t. Inr \<lparr>code = t, typeReferences = [], fileReferences = []\<rparr>"
  let ?ctx = "\<lambda>d colour. []"
  let ?fmt = "\<lambda>ds. ''1 diagnostic''"
  let ?opts = "\<lparr>noEmit = False, force = False, clean = True, declarationOption = True,
      emitDeclarationOnly = False, watch = False\<rparr>"
  let ?e = "\<lparr>emitted = [(''/p/dist/a.d.ts'', ''export declare const a: number;'')],
      diagnostics = [\<lparr>category = Error, diagnosticFile = Some (''/p/src/a.ts'', 0), messageText = ''e''\<rparr>]\<rparr>"
  let ?quiet = "\<lparr>emitted = [(''/p/dist/a.d.ts'', ''export declare const a: number;'')],
      diagnostics = ([] :: Diagnostic list)\<rparr>"
  let ?m0 = "\<lparr>hasEmittedFiles = False, declarationFiles = Map.empty,
      cache = None, diskWrites = [], cacheSaves = []\<rparr>"
  let ?m1 = "\<lparr>hasEmittedFiles = True,
      declarationFiles = [''/p/dist/a.d.ts'' \<mapsto>
         \<lparr>code = ''export declare const a: number;'', typeReferences = [], fileReferences = []\<rparr>],
      cache = None, diskWrites = [], cacheSaves = []\<rparr>"
  have i: "initialize (new_FileManager None) = Inr ?m0"
    by (simp add: initialize_def new_FileManager_def)
  have h: "emitFiles ?pre ?m0 (emitted ?e) = Inr ?m1"
    by (simp add: fileWriter_def)
  have h0: "emitFiles ?pre ?m0 (emitted ?quiet) = Inr ?m1"
    by (simp add: fileWriter_def)
  have f: "finalize ?m1 = (True, ?m1)"
    by (simp add: finalize_def)
  have p: "phasesOf ?opts = [Clean, ProcessDeclarations, Transpile]"
    by (simp add: phasesOf_def)
  from typeCheck_raises_iff_diagnostics [OF i h, of ?ctx ?fmt ?opts]
  have 1: "typeCheck ?pre ?ctx ?fmt (new_FileManager None) ?e
             = Inl (TypeCheckError ''Type-checking failed'' ''1 diagnostic'')
           \<and> build ?pre ?ctx ?fmt ?opts (new_FileManager None) ?e = ([], Some 1)"
    by simp
  from typeCheck_raises_iff_diagnostics [OF i h0, of ?ctx ?fmt ?opts] f p
  have 2: "typeCheck ?pre ?ctx ?fmt (new_FileManager None) ?quiet = Inr (True, ?m1)
           \<and> build ?pre ?ctx ?fmt ?opts (new_FileManager None) ?quiet
               = ([Clean, ProcessDeclarations, Transpile], None)"
    by simp
  from 1 2 show ?thesis by simp
qed

section \<open>Properties of mergeImports\<close>

text \<open>
  C8, evaluated at two plain named imports, one from the module \<open>type:foo\<close> and one from
  the module \<open>foo\<close>. The map key of the first is \<open>type:foo\<close>, the key a type import of
  \<open>foo\<close> would have, and the prefix is stripped when the statement is rendered: the result
  holds two merged plain imports from \<open>foo\<close>, and none from \<open>type:foo\<close>.
\<close>

theorem mergeImports_type_prefix_collision:
  "mergeImports [''import { a } from '' @ dquote @ ''type:foo'' @ dquote @ '';'',
                 ''import { b } from '' @ dquote @ ''foo'' @ dquote @ '';'']
     = [''import { a } from '' @ dquote @ ''foo'' @ dquote @ '';'',
        ''import { b } from '' @ dquote @ ''foo'' @ dquote @ '';'']"
  by code_simp

section \<open>Properties of the runtime's sets and maps\<close>

lemma set_setAddAll: "set (setAddAll ys xs) = set xs \<union> set ys"
  unfolding setAddAll_def by (induction ys arbitrary: xs) (auto simp: setAdd_def)

lemma distinct_setAddAll: "distinct xs \<Longrightarrow> distinct (setAddAll ys xs)"
  unfolding setAddAll_def by (induction ys arbitrary: xs) (auto simp: setAdd_def)

lemma set_newSet: "set (newSet xs) = set xs"
  by (simp add: newSet_def set_setAddAll)

lemma distinct_newSet: "distinct (newSet xs)"
  by (simp add: newSet_def distinct_setAddAll)

lemma map_of_mapSet: "map_of (mapSet k v m) k' = (if k' = k then Some v else map_of m k')"
  by (induction m) auto

lemma keys_mapSet: "fst ` set (mapSet k v m) = insert k (fst ` set m)"
  by (induction m) (force split: if_splits)+

lemma distinct_keys_mapSet: "distinct (map fst m) \<Longrightarrow> distinct (map fst (mapSet k v m))"
  by (induction m) (auto simp: keys_mapSet)

lemma setAdd_idem: "setAdd p (setAdd p xs) = setAdd p xs"
  by (simp add: setAdd_def)

section \<open>Properties of the rename table\<close>

lemma sourcesOf_addSource:
  "sourcesOf (addSource p name ds) n = (if n = name then setAdd p (sourcesOf ds n) else sourcesOf ds n)"
  by (auto simp: sourcesOf_def addSource_def map_of_mapSet setAdd_def split: option.splits)

lemma distinct_keys_addSource: "distinct (map fst ds) \<Longrightarrow> distinct (map fst (addSource p name ds))"
  by (auto simp: addSource_def distinct_keys_mapSet split: option.splits)

lemma map_of_addSource_None:
  "(map_of (addSource p name ds) n = None) = (n \<noteq> name \<and> map_of ds n = None)"
  by (auto simp: addSource_def map_of_mapSet split: option.splits)

lemma sourcesOf_fold_addSource:
  "sourcesOf (fold (addSource p) ns ds) n
     = (if n \<in> set ns then setAdd p (sourcesOf ds n) else sourcesOf ds n)"
  by (induction ns arbitrary: ds) (auto simp: sourcesOf_addSource setAdd_idem)

lemma distinct_keys_fold_addSource:
  "distinct (map fst ds) \<Longrightarrow> distinct (map fst (fold (addSource p) ns ds))"
  by (induction ns arbitrary: ds) (auto simp: distinct_keys_addSource)

lemma map_of_fold_addSource_None:
  "(map_of (fold (addSource p) ns ds) n = None) = (n \<notin> set ns \<and> map_of ds n = None)"
  by (induction ns arbitrary: ds) (auto simp: map_of_addSource_None)


lemma sourcesOf_fold_step:
  "distinct (map path mods) \<Longrightarrow> set (map path mods) \<inter> set (sourcesOf ds n) = {} \<Longrightarrow>
   sourcesOf (fold sourceStep mods ds) n = sourcesOf ds n @ map path (declaringModules mods n)"
proof (induction mods arbitrary: ds)
  case Nil
  then show ?case by (simp add: declaringModules_def)
next
  case (Cons m mods)
  let ?ds = "sourceStep m ds"
  have s: "sourcesOf ?ds n = (if n \<in> set (declaredNames m) then sourcesOf ds n @ [path m] else sourcesOf ds n)"
    using Cons.prems(2) by (auto simp: sourceStep_def sourcesOf_fold_addSource setAdd_def)
  have d: "set (map path mods) \<inter> set (sourcesOf ?ds n) = {}"
    using Cons.prems s by auto
  from Cons.prems have "distinct (map path mods)" by simp
  from Cons.IH [OF this d] s show ?case
    by (simp add: declaringModules_def)
qed

lemma distinct_keys_fold_step:
  "distinct (map fst ds) \<Longrightarrow> distinct (map fst (fold sourceStep mods ds))"
  by (induction mods arbitrary: ds) (auto simp: sourceStep_def distinct_keys_fold_addSource)

lemma declarationSources_fold: "declarationSources mods = fold sourceStep mods []"
  by (simp add: declarationSources_def sourceStep_def [abs_def])

lemma sourcesOf_declarationSources:
  "distinct (map path mods) \<Longrightarrow>
   sourcesOf (declarationSources mods) n = map path (declaringModules mods n)"
  using sourcesOf_fold_step [of mods "[]" n] by (simp add: declarationSources_fold sourcesOf_def)

lemma distinct_keys_declarationSources: "distinct (map fst (declarationSources mods))"
  by (simp add: declarationSources_fold distinct_keys_fold_step)


lemma map_of_fold_step_None:
  "(map_of (fold sourceStep mods ds) n = None)
     = ((\<forall>m \<in> set mods. n \<notin> set (declaredNames m)) \<and> map_of ds n = None)"
  by (induction mods arbitrary: ds) (auto simp: sourceStep_def map_of_fold_addSource_None)

lemma declarationSources_entry:
  assumes "distinct (map path mods)" and "(n, s) \<in> set (declarationSources mods)"
  shows "s = map path (declaringModules mods n)" and "\<exists>m \<in> set mods. n \<in> set (declaredNames m)"
proof -
  from assms(2) distinct_keys_declarationSources [of mods]
  have m: "map_of (declarationSources mods) n = Some s" by simp
  then have "sourcesOf (declarationSources mods) n = s" by (simp add: sourcesOf_def)
  with sourcesOf_declarationSources [OF assms(1)] show "s = map path (declaringModules mods n)"
    by simp
  from m have "map_of (fold sourceStep mods []) n \<noteq> None"
    by (simp add: declarationSources_fold)
  then show "\<exists>m \<in> set mods. n \<in> set (declaredNames m)"
    by (simp add: map_of_fold_step_None)
qed

lemma declarationSources_has_entry:
  assumes "m \<in> set mods" and "n \<in> set (declaredNames m)"
  shows "\<exists>s. (n, s) \<in> set (declarationSources mods)"
proof -
  from assms have "map_of (fold sourceStep mods []) n \<noteq> None"
    by (auto simp: map_of_fold_step_None)
  then obtain s where "map_of (declarationSources mods) n = Some s"
    by (auto simp: declarationSources_fold)
  then show ?thesis by (auto dest: map_of_SomeD)
qed

lemma takeWhile_until: "c \<notin> set n \<Longrightarrow> takeWhile (\<lambda>x. x \<noteq> c) (n @ c # p) = n"
  by (induction n) auto

lemma renameKey_inj:
  assumes "CHR '':'' \<notin> set n" and "CHR '':'' \<notin> set n'" and "renameKey n p = renameKey n' p'"
  shows "n = n' \<and> p = p'"
proof -
  have a: "takeWhile (\<lambda>c. c \<noteq> CHR '':'') (renameKey n p) = n"
    using assms(1) by (simp add: renameKey_def takeWhile_until)
  have b: "takeWhile (\<lambda>c. c \<noteq> CHR '':'') (renameKey n' p') = n'"
    using assms(2) by (simp add: renameKey_def takeWhile_until)
  from a b assms(3) have "n = n'" by simp
  with assms(3) show ?thesis by (simp add: renameKey_def)
qed

lemma map_of_fold_mapSet:
  "map_of (fold (\<lambda>kv rm. mapSet (fst kv) (snd kv) rm) kvs rm) k
     = (case map_of (rev kvs) k of Some v \<Rightarrow> Some v | None \<Rightarrow> map_of rm k)"
  by (induction kvs arbitrary: rm) (auto simp: map_of_mapSet map_add_def split: option.splits)

lemma fold_nested: "fold (\<lambda>x acc. fold f (g x) acc) xs acc = fold f (concat (map g xs)) acc"
  by (induction xs arbitrary: acc) auto

lemma generateRenames_concat:
  "generateRenames ds = fold (\<lambda>kv rm. mapSet (fst kv) (snd kv) rm) (concat (map renameEntries ds)) []"
  by (simp add: generateRenames_def fold_nested)

lemma in_renameEntries:
  "((k, v) \<in> set (renameEntries (n, s)))
     = (\<exists>i. Suc i < length s \<and> k = renameKey n (s ! Suc i) \<and> v = n @ ''$'' @ showNat (Suc i))"
proof (cases s)
  case Nil
  then show ?thesis by (simp add: renameEntries_def)
next
  case (Cons a t)
  show ?thesis
  proof
    assume "(k, v) \<in> set (renameEntries (n, s))"
    then obtain i p where "(i, p) \<in> set (enumerate 0 t)"
      and kv: "k = renameKey n p" "v = n @ ''$'' @ showNat (i + 1)"
      using Cons by (auto simp: renameEntries_def split: if_splits)
    then have "i < length t" "t ! i = p" by (auto simp: in_set_enumerate_eq)
    with kv Cons show "\<exists>i. Suc i < length s \<and> k = renameKey n (s ! Suc i) \<and> v = n @ ''$'' @ showNat (Suc i)"
      by auto
  next
    assume "\<exists>i. Suc i < length s \<and> k = renameKey n (s ! Suc i) \<and> v = n @ ''$'' @ showNat (Suc i)"
    then obtain i where i: "i < length t" "k = renameKey n (t ! i)" "v = n @ ''$'' @ showNat (Suc i)"
      using Cons by auto
    then have "(i, t ! i) \<in> set (enumerate 0 t)" by (simp add: in_set_enumerate_eq)
    with i Cons show "(k, v) \<in> set (renameEntries (n, s))"
      by (force simp: renameEntries_def)
  qed
qed


lemma readNat_showNat: "readNat (showNat n) = n"
proof (induction n rule: showNat.induct)
  case (1 n)
  show ?case
  proof (cases "n < 10")
    case True
    then show ?thesis
      by (subst showNat.simps) (simp add: readNat_def digit_def)
  next
    case False
    have d: "of_char (digit (n mod 10)) = 48 + n mod 10"
      by (simp add: digit_def)
    from False 1 have "readNat (showNat (n div 10)) = n div 10" by simp
    with False d show ?thesis
      by (subst showNat.simps) (simp add: readNat_def)
  qed
qed

lemma showNat_inj: "showNat a = showNat b \<Longrightarrow> a = b"
  by (metis readNat_showNat)

lemma rename_entries_functional:
  assumes dk: "distinct (map fst ds)"
    and dist: "\<forall>(n, s) \<in> set ds. distinct s"
    and nocolon: "\<forall>(n, s) \<in> set ds. CHR '':'' \<notin> set n"
    and 1: "(k, v) \<in> set (concat (map renameEntries ds))"
    and 2: "(k, v') \<in> set (concat (map renameEntries ds))"
  shows "v = v'"
proof -
  from 1 obtain n s i where e1: "(n, s) \<in> set ds" "Suc i < length s"
      "k = renameKey n (s ! Suc i)" "v = n @ ''$'' @ showNat (Suc i)"
    by (auto simp: in_renameEntries)
  from 2 obtain n' s' i' where e2: "(n', s') \<in> set ds" "Suc i' < length s'"
      "k = renameKey n' (s' ! Suc i')" "v' = n' @ ''$'' @ showNat (Suc i')"
    by (auto simp: in_renameEntries)
  from nocolon e1(1) e2(1) have "CHR '':'' \<notin> set n" "CHR '':'' \<notin> set n'" by auto
  with e1(3) e2(3) have n: "n = n'" and p: "s ! Suc i = s' ! Suc i'"
    using renameKey_inj by metis+
  from dk e1(1) e2(1) n have s: "s = s'"
    by (metis eq_key_imp_eq_value)
  from dist e1(1) have "distinct s" by auto
  with p s e1(2) e2(2) have "Suc i = Suc i'"
    by (simp add: nth_eq_iff_index_eq)
  with n e1(4) e2(4) show ?thesis by simp
qed

lemma generateRenames_Some:
  assumes dk: "distinct (map fst ds)"
    and dist: "\<forall>(n, s) \<in> set ds. distinct s"
    and nocolon: "\<forall>(n, s) \<in> set ds. CHR '':'' \<notin> set n"
    and 1: "(k, v) \<in> set (concat (map renameEntries ds))"
  shows "map_of (generateRenames ds) k = Some v"
proof -
  let ?E = "concat (map renameEntries ds)"
  from 1 have "(k, v) \<in> set (rev ?E)" by simp
  then obtain v' where v': "map_of (rev ?E) k = Some v'"
    by (metis weak_map_of_SomeI)
  then have "(k, v') \<in> set ?E" by (auto dest: map_of_SomeD)
  with rename_entries_functional [OF dk dist nocolon 1] have "v = v'" by simp
  with v' show ?thesis
    by (simp add: generateRenames_concat map_of_fold_mapSet)
qed

lemma generateRenames_None:
  assumes "k \<notin> fst ` set (concat (map renameEntries ds))"
  shows "map_of (generateRenames ds) k = None"
proof -
  from assms have "map_of (rev (concat (map renameEntries ds))) k = None"
    by (simp add: map_of_eq_None_iff)
  then show ?thesis
    by (simp add: generateRenames_concat map_of_fold_mapSet)
qed

lemma map_of_moduleRenames:
  "map_of (fold (addModuleRename rm p) ns mr) n
     = (if n \<in> set ns
        then (case map_of rm (renameKey n p) of
                Some r \<Rightarrow> if r \<noteq> [] then Some r else map_of mr n
              | None \<Rightarrow> map_of mr n)
        else map_of mr n)"
  by (induction ns arbitrary: mr)
     (auto simp: addModuleRename_def map_of_mapSet split: option.splits)

lemma finalName_declared:
  assumes "n \<in> set (declaredNames m)"
  shows "finalName rm m n
     = (case map_of rm (renameKey n (path m)) of Some r \<Rightarrow> if r \<noteq> [] then r else n | None \<Rightarrow> n)"
  using assms
  by (auto simp: finalName_def exportsMapper_def moduleRenamesOf_def map_of_moduleRenames
      declaredNames_def split: option.splits)


lemma declarationSources_facts:
  assumes A1: "distinct (map path mods)"
    and A2: "\<forall>m \<in> set mods. \<forall>n \<in> set (declaredNames m). CHR '':'' \<notin> set n"
  shows "\<forall>(n, s) \<in> set (declarationSources mods). distinct s"
    and "\<forall>(n, s) \<in> set (declarationSources mods). CHR '':'' \<notin> set n"
proof -
  show "\<forall>(n, s) \<in> set (declarationSources mods). distinct s"
  proof clarify
    fix n s assume "(n, s) \<in> set (declarationSources mods)"
    from declarationSources_entry(1) [OF A1 this] A1 show "distinct s"
      by (simp add: declaringModules_def distinct_map_filter)
  qed
  show "\<forall>(n, s) \<in> set (declarationSources mods). CHR '':'' \<notin> set n"
  proof clarify
    fix n s assume "(n, s) \<in> set (declarationSources mods)" and c: "CHR '':'' \<in> set n"
    from declarationSources_entry(2) [OF A1 this(1)] A2 c show False by auto
  qed
qed

lemma finalName_position:
  assumes A1: "distinct (map path mods)"
    and A2: "\<forall>m \<in> set mods. \<forall>n \<in> set (declaredNames m). CHR '':'' \<notin> set n"
    and i: "i < length (declaringModules mods name)"
  shows "finalName (generateRenames (declarationSources mods)) (declaringModules mods name ! i) name
           = (if i = 0 then name else name @ ''$'' @ showNat i)"
proof -
  let ?D = "declaringModules mods name"
  let ?ps = "map path ?D"
  let ?ds = "declarationSources mods"
  let ?E = "concat (map renameEntries ?ds)"
  let ?m = "?D ! i"
  from i have "?m \<in> set ?D" by simp
  then have m: "?m \<in> set mods" and d: "name \<in> set (declaredNames ?m)"
    by (auto simp: declaringModules_def)
  from declarationSources_has_entry [OF m d] obtain s where s: "(name, s) \<in> set ?ds" by blast
  from declarationSources_entry(1) [OF A1 s] have sp: "s = ?ps" .
  note dk = distinct_keys_declarationSources [of mods]
  note facts = declarationSources_facts [OF A1 A2]
  from facts(1) s sp have dps: "distinct ?ps" by auto
  from A2 m d have nc: "CHR '':'' \<notin> set name" by auto
  have pm: "path ?m = ?ps ! i" using i by simp
  show ?thesis
  proof (cases i)
    case 0
    have "renameKey name (path ?m) \<notin> fst ` set ?E"
    proof
      assume "renameKey name (path ?m) \<in> fst ` set ?E"
      then obtain v where "(renameKey name (path ?m), v) \<in> set ?E" by force
      then obtain n' s' where "(n', s') \<in> set ?ds"
          and "(renameKey name (path ?m), v) \<in> set (renameEntries (n', s'))"
        by auto
      then obtain j where e: "(n', s') \<in> set ?ds" "Suc j < length s'"
          "renameKey name (path ?m) = renameKey n' (s' ! Suc j)"
        by (auto simp: in_renameEntries)
      from facts(2) e(1) have "CHR '':'' \<notin> set n'" by auto
      with nc e(3) have n: "name = n'" and p: "path ?m = s' ! Suc j"
        using renameKey_inj by metis+
      from dk s e(1) n have "s' = s" by (metis eq_key_imp_eq_value)
      with sp p pm 0 e(2) have "?ps ! 0 = ?ps ! Suc j" "Suc j < length ?ps" by simp_all
      with dps i 0 show False
        by (metis nth_eq_iff_index_eq Zero_not_Suc length_map)
    qed
    from generateRenames_None [OF this]
    have "finalName (generateRenames ?ds) ?m name = name"
      by (simp add: finalName_declared [OF d])
    with 0 show ?thesis by simp
  next
    case (Suc j)
    with i have "Suc j < length s" by (simp add: sp)
    then have "(renameKey name (s ! Suc j), name @ ''$'' @ showNat (Suc j)) \<in> set (renameEntries (name, s))"
      by (auto simp: in_renameEntries)
    with s have "(renameKey name (s ! Suc j), name @ ''$'' @ showNat (Suc j)) \<in> set ?E"
      by auto
    moreover have "s ! Suc j = path ?m" using sp pm Suc by simp
    ultimately have "(renameKey name (path ?m), name @ ''$'' @ showNat (Suc j)) \<in> set ?E"
      by simp
    from generateRenames_Some [OF dk facts this]
    have "finalName (generateRenames ?ds) ?m name = name @ ''$'' @ showNat (Suc j)"
      by (simp add: finalName_declared [OF d])
    with Suc show ?thesis by simp
  qed
qed

lemma finalName_unique:
  assumes A1: "distinct (map path mods)"
    and A2: "\<forall>m \<in> set mods. \<forall>n \<in> set (declaredNames m). CHR '':'' \<notin> set n"
    and A3: "\<forall>m \<in> set mods. \<forall>n \<in> set (declaredNames m). CHR ''$'' \<notin> set n"
    and m1: "m1 \<in> set mods" "n1 \<in> set (declaredNames m1)"
    and m2: "m2 \<in> set mods" "n2 \<in> set (declaredNames m2)"
    and eq: "finalName (generateRenames (declarationSources mods)) m1 n1
               = finalName (generateRenames (declarationSources mods)) m2 n2"
  shows "m1 = m2 \<and> n1 = n2"
proof -
  let ?rm = "generateRenames (declarationSources mods)"
  from m1 have "m1 \<in> set (declaringModules mods n1)" by (simp add: declaringModules_def)
  then obtain i1 where i1: "i1 < length (declaringModules mods n1)" "declaringModules mods n1 ! i1 = m1"
    by (auto simp: in_set_conv_nth)
  from m2 have "m2 \<in> set (declaringModules mods n2)" by (simp add: declaringModules_def)
  then obtain i2 where i2: "i2 < length (declaringModules mods n2)" "declaringModules mods n2 ! i2 = m2"
    by (auto simp: in_set_conv_nth)
  from finalName_position [OF A1 A2 i1(1)] i1(2)
  have f1: "finalName ?rm m1 n1 = (if i1 = 0 then n1 else n1 @ ''$'' @ showNat i1)" by simp
  from finalName_position [OF A1 A2 i2(1)] i2(2)
  have f2: "finalName ?rm m2 n2 = (if i2 = 0 then n2 else n2 @ ''$'' @ showNat i2)" by simp
  from A3 m1 m2 have d: "CHR ''$'' \<notin> set n1" "CHR ''$'' \<notin> set n2" by auto
  have n: "n1 = n2"
  proof (cases "i1 = 0")
    case True
    with f1 f2 eq d show ?thesis by (cases "i2 = 0") auto
  next
    case False
    show ?thesis
    proof (cases "i2 = 0")
      case True
      with False f1 f2 eq d show ?thesis by auto
    next
      case i2f: False
      from False i2f f1 f2 eq have "n1 @ CHR ''$'' # showNat i1 = n2 @ CHR ''$'' # showNat i2" by simp
      then have "takeWhile (\<lambda>x. x \<noteq> CHR ''$'') (n1 @ CHR ''$'' # showNat i1)
               = takeWhile (\<lambda>x. x \<noteq> CHR ''$'') (n2 @ CHR ''$'' # showNat i2)" by simp
      with d show ?thesis by (simp add: takeWhile_until)
    qed
  qed
  have "i1 = i2"
  proof (cases "i1 = 0")
    case True
    with f1 f2 eq n d show ?thesis by (cases "i2 = 0") auto
  next
    case False
    with f1 f2 eq n d show ?thesis by (cases "i2 = 0") (auto dest: showNat_inj)
  qed
  with n i1 i2 show ?thesis by simp
qed


text \<open>
  The rename table. Let the combined modules have pairwise different paths and declare
  only identifiers without a colon (every identifier of the language is such). For every
  identifier, the first module that declares it, in the order the modules are combined,
  keeps the name, and the \<open>i\<close>-th further module that declares it is given the name
  followed by \<open>$i\<close>. If moreover no module declares an identifier that contains \<open>$\<close>,
  two declarations are given the same name only when they are the same identifier of the
  same module.
\<close>

lemma rename_table_allocation:
  assumes "distinct (map path sortedModules)"
    and "\<forall>m \<in> set sortedModules. \<forall>n \<in> set (declaredNames m). CHR '':'' \<notin> set n"
  shows "(\<forall>name i. i < length (declaringModules sortedModules name) \<longrightarrow>
            finalName (generateRenames (declarationSources sortedModules))
                (declaringModules sortedModules name ! i) name
              = (if i = 0 then name else name @ ''$'' @ showNat i))
       \<and> ((\<forall>m \<in> set sortedModules. \<forall>n \<in> set (declaredNames m). CHR ''$'' \<notin> set n) \<longrightarrow>
            (\<forall>m1 \<in> set sortedModules. \<forall>m2 \<in> set sortedModules.
               \<forall>n1 \<in> set (declaredNames m1). \<forall>n2 \<in> set (declaredNames m2).
                 finalName (generateRenames (declarationSources sortedModules)) m1 n1
                   = finalName (generateRenames (declarationSources sortedModules)) m2 n2
                 \<longrightarrow> m1 = m2 \<and> n1 = n2))"
proof (intro conjI allI impI ballI)
  fix name i assume "i < length (declaringModules sortedModules name)"
  from finalName_position [OF assms this]
  show "finalName (generateRenames (declarationSources sortedModules))
          (declaringModules sortedModules name ! i) name
        = (if i = 0 then name else name @ ''$'' @ showNat i)" .
next
  fix m1 m2 n1 n2
  assume "\<forall>m \<in> set sortedModules. \<forall>n \<in> set (declaredNames m). CHR ''$'' \<notin> set n"
    and "m1 \<in> set sortedModules" "m2 \<in> set sortedModules"
    and "n1 \<in> set (declaredNames m1)" "n2 \<in> set (declaredNames m2)"
    and "finalName (generateRenames (declarationSources sortedModules)) m1 n1
           = finalName (generateRenames (declarationSources sortedModules)) m2 n2"
  from finalName_unique [OF assms this(1,2,4,3,5,6)]
  show "m1 = m2" and "n1 = n2" by simp_all
qed

text \<open>
  C2, evaluated at two modules that both declare an interface \<open>Foo\<close>. The rename table
  keeps \<open>Foo\<close> for the first module and gives \<open>Foo$1\<close> to the second. The rewrite of the
  second module's code overwrites each identifier \<open>Foo\<close> from its \<open>pos\<close>, which takes the
  blank before the name with it, and it also overwrites the identifier in the export
  declaration that was removed before, which prints the new name where the declaration
  stood: the bundle reads \<open>interfaceFoo$1\<close> where the interface \<open>Foo$1\<close> should be
  declared, and names \<open>Foo$1\<close> among its exports.
\<close>

theorem combineModules_renamed_declaration:
  "combineModules exampleOptions [firstFoo, secondFoo] fooBundled
     = Inr \<lparr>bundledCode = ''interface Foo { a: string }'' @ newLine @ newLine
                            @ ''interfaceFoo$1 { b: string }Foo$1'' @ newLine @ newLine
                            @ ''export type { Foo, Foo$1 };'',
            exports = [''Foo'', ''Foo$1''], allDeclarations = [''Foo'']\<rparr>
   \<and> finalName (generateRenames (declarationSources [firstFoo, secondFoo])) firstFoo ''Foo'' = ''Foo''
   \<and> finalName (generateRenames (declarationSources [firstFoo, secondFoo])) secondFoo ''Foo'' = ''Foo$1''"
  by code_simp

section \<open>Properties of the bundle composer\<close>

text \<open>
  What the loop over the statements collects does not depend on the buffer: the value
  exports and the type exports of a module are the local names of its export
  declarations, sorted by what the module declares.
\<close>

lemma forEach_append:
  "forEach f (xs @ ys) s = (case forEach f xs s of Inl e \<Rightarrow> Inl e | Inr s' \<Rightarrow> forEach f ys s')"
  by (induction xs arbitrary: s) (auto split: sum.splits)

lemma categorize_values:
  "collectedValues (fold (\<lambda>element acc. categorize ids acc element) elements c)
     = collectedValues c
       @ filter (\<lambda>l. l \<in> set (valueIdentifiers ids) \<or> l \<notin> set (typeIdentifiers ids))
           (map localName elements)"
  by (induction elements arbitrary: c) (auto simp: categorize_def)

lemma categorize_types:
  "collectedTypes (fold (\<lambda>element acc. categorize ids acc element) elements c)
     = collectedTypes c
       @ filter (\<lambda>l. l \<notin> set (valueIdentifiers ids) \<and> l \<in> set (typeIdentifiers ids))
           (map localName elements)"
  by (induction elements arbitrary: c) (auto simp: categorize_def)

lemma stripStatement_collected:
  assumes "stripStatement opts codeText ids bundledImportPaths statement (c, magic) = Inr (c', magic')"
  shows "collectedValues c' = collectedValues c
           @ filter (\<lambda>l. l \<in> set (valueIdentifiers ids) \<or> l \<notin> set (typeIdentifiers ids))
               (exportedLocalsOf (statementNode statement))"
    and "collectedTypes c' = collectedTypes c
           @ filter (\<lambda>l. l \<notin> set (valueIdentifiers ids) \<and> l \<in> set (typeIdentifiers ids))
               (exportedLocalsOf (statementNode statement))"
  using assms
  by (induction opts codeText ids bundledImportPaths statement "(c, magic)"
        rule: stripStatement.induct;
      auto simp: Let_def categorize_values categorize_types split: sum.splits if_splits)+

lemma forEach_stripStatement_collected:
  "forEach (stripStatement opts codeText ids bundledImportPaths) statements (c, magic) = Inr (c', magic') \<Longrightarrow>
     collectedValues c' = collectedValues c
        @ filter (\<lambda>l. l \<in> set (valueIdentifiers ids) \<or> l \<notin> set (typeIdentifiers ids))
            (concat (map (\<lambda>statement. exportedLocalsOf (statementNode statement)) statements))
     \<and> collectedTypes c' = collectedTypes c
        @ filter (\<lambda>l. l \<notin> set (valueIdentifiers ids) \<and> l \<in> set (typeIdentifiers ids))
            (concat (map (\<lambda>statement. exportedLocalsOf (statementNode statement)) statements))"
proof (induction statements arbitrary: c magic)
  case Nil
  then show ?case by simp
next
  case (Cons statement statements)
  from Cons.prems obtain c1 magic1 where
    s: "stripStatement opts codeText ids bundledImportPaths statement (c, magic) = Inr (c1, magic1)"
    and r: "forEach (stripStatement opts codeText ids bundledImportPaths) statements (c1, magic1) = Inr (c', magic')"
    by (auto split: sum.splits)
  from Cons.IH [OF r] stripStatement_collected [OF s] show ?case by simp
qed


lemma stripImportsExports_exports:
  assumes "stripImportsExports opts (code m) (sourceFile m) (identifiers m) bundledImportPaths rm (path m) = Inr d"
  shows "set (valueExports d) = finalName rm m ` {name. exportedAsValue m name}"
    and "set (typeExports d) = finalName rm m ` {name. exportedAsType m name} - set (valueExports d)"
proof -
  let ?mr = "moduleRenamesOf rm (identifiers m) (path m)"
  let ?c0 = "\<lparr>collectedImports = [], collectedTypes = [], collectedValues = []\<rparr>"
  from assms obtain c magic where
    f: "forEach (stripStatement opts (code m) (identifiers m) bundledImportPaths) (sourceFile m)
          (?c0, new_MagicString (code m)) = Inr (c, magic)"
    and v: "valueExports d = newSet (map (exportsMapper ?mr) (collectedValues c))"
    and t: "typeExports d = newSet (filter (\<lambda>t. t \<notin> set (newSet (map (exportsMapper ?mr) (collectedValues c))))
                                     (map (exportsMapper ?mr) (collectedTypes c)))"
    by (auto simp: stripImportsExports_def Let_def split: sum.splits if_splits)
  from forEach_stripStatement_collected [OF f]
  have cv: "collectedValues c
              = filter (\<lambda>l. l \<in> set (valueIdentifiers (identifiers m)) \<or> l \<notin> set (typeIdentifiers (identifiers m)))
                  (exportedLocals m)"
    and ct: "collectedTypes c
              = filter (\<lambda>l. l \<notin> set (valueIdentifiers (identifiers m)) \<and> l \<in> set (typeIdentifiers (identifiers m)))
                  (exportedLocals m)"
    by (simp_all add: exportedLocals_def)
  have f: "finalName rm m = exportsMapper ?mr"
    by (rule ext) (simp add: finalName_def)
  have sv: "set (collectedValues c) = {name. exportedAsValue m name}"
    unfolding cv by (auto simp: exportedAsValue_def)
  have st: "set (collectedTypes c) = {name. exportedAsType m name}"
    unfolding ct by (auto simp: exportedAsType_def)
  show 1: "set (valueExports d) = finalName rm m ` {name. exportedAsValue m name}"
    unfolding v f by (simp add: set_newSet sv)
  have "set (typeExports d) = exportsMapper ?mr ` set (collectedTypes c) - set (valueExports d)"
    unfolding t v by (auto simp: set_newSet)
  then show "set (typeExports d) = finalName rm m ` {name. exportedAsType m name} - set (valueExports d)"
    unfolding f st .
qed

lemma accumulateModule_exports:
  assumes "accumulateModule opts bundled rm m a = Inr a'"
  shows "set (allValueExports a')
           = set (allValueExports a)
             \<union> (if \<not> includesString (path m) nodeModules
                then finalName rm m ` {name. exportedAsValue m name} else {})"
    and "set (allTypeExports a')
           = set (allTypeExports a)
             \<union> (if \<not> includesString (path m) nodeModules
                then finalName rm m ` {name. exportedAsType m name}
                       - finalName rm m ` {name. exportedAsValue m name}
                else {})"
proof -
  from assms obtain d where
    s: "stripImportsExports opts (code m) (sourceFile m) (identifiers m)
          (bundledForModule bundled (path m)) rm (path m) = Inr d"
    by (auto simp: accumulateModule_def split: sum.splits)
  from assms s
  have v: "allValueExports a' = allValueExports a
             @ (if \<not> includesString (path m) nodeModules then valueExports d else [])"
    and t: "allTypeExports a' = allTypeExports a
             @ (if \<not> includesString (path m) nodeModules then typeExports d else [])"
    by (auto simp: accumulateModule_def Let_def split: if_splits)
  note e = stripImportsExports_exports [OF s]
  show "set (allValueExports a')
           = set (allValueExports a)
             \<union> (if \<not> includesString (path m) nodeModules
                then finalName rm m ` {name. exportedAsValue m name} else {})"
    unfolding v using e(1) by simp
  show "set (allTypeExports a')
           = set (allTypeExports a)
             \<union> (if \<not> includesString (path m) nodeModules
                then finalName rm m ` {name. exportedAsType m name}
                       - finalName rm m ` {name. exportedAsValue m name}
                else {})"
    unfolding t using e by auto
qed

lemma forEach_accumulateModule_exports:
  "forEach (accumulateModule opts bundled rm) mods a = Inr a' \<Longrightarrow>
     set (allValueExports a')
       = set (allValueExports a)
         \<union> (\<Union>m \<in> set (projectModules mods). finalName rm m ` {name. exportedAsValue m name})
     \<and> set (allTypeExports a') \<union> set (allValueExports a')
       = set (allTypeExports a) \<union> set (allValueExports a)
         \<union> (\<Union>m \<in> set (projectModules mods). finalName rm m ` {name. exportedAsType m name})
         \<union> (\<Union>m \<in> set (projectModules mods). finalName rm m ` {name. exportedAsValue m name})"
proof (induction mods arbitrary: a)
  case Nil
  then show ?case by (simp add: projectModules_def)
next
  case (Cons m mods)
  from Cons.prems obtain a1 where
    s: "accumulateModule opts bundled rm m a = Inr a1"
    and r: "forEach (accumulateModule opts bundled rm) mods a1 = Inr a'"
    by (auto split: sum.splits)
  note ih = Cons.IH [OF r]
  note st = accumulateModule_exports [OF s]
  show ?case
  proof (cases "includesString (path m) nodeModules")
    case True
    then have p: "projectModules (m # mods) = projectModules mods" by (simp add: projectModules_def)
    from st True have e1: "set (allValueExports a1) = set (allValueExports a)"
      and e2: "set (allTypeExports a1) = set (allTypeExports a)" by simp_all
    from ih [unfolded e1 e2] show ?thesis unfolding p .
  next
    case False
    then have p: "projectModules (m # mods) = m # projectModules mods" by (simp add: projectModules_def)
    from st False have 1: "set (allValueExports a1)
        = set (allValueExports a) \<union> finalName rm m ` {name. exportedAsValue m name}"
      and 2: "set (allTypeExports a1)
        = set (allTypeExports a) \<union> (finalName rm m ` {name. exportedAsType m name}
                       - finalName rm m ` {name. exportedAsValue m name})" by simp_all
    from ih have v: "set (allValueExports a')
       = set (allValueExports a1)
         \<union> (\<Union>m \<in> set (projectModules mods). finalName rm m ` {name. exportedAsValue m name})"
      by (rule conjunct1)
    from ih have t: "set (allTypeExports a') \<union> set (allValueExports a')
       = set (allTypeExports a1) \<union> set (allValueExports a1)
         \<union> (\<Union>m \<in> set (projectModules mods). finalName rm m ` {name. exportedAsType m name})
         \<union> (\<Union>m \<in> set (projectModules mods). finalName rm m ` {name. exportedAsValue m name})"
      by (rule conjunct2)
    have v': "set (allValueExports a')
       = set (allValueExports a)
         \<union> (\<Union>m \<in> set (projectModules (m # mods)). finalName rm m ` {name. exportedAsValue m name})"
      unfolding v 1 p by auto
    have t': "set (allTypeExports a') \<union> set (allValueExports a')
       = set (allTypeExports a) \<union> set (allValueExports a)
         \<union> (\<Union>m \<in> set (projectModules (m # mods)). finalName rm m ` {name. exportedAsType m name})
         \<union> (\<Union>m \<in> set (projectModules (m # mods)). finalName rm m ` {name. exportedAsValue m name})"
      unfolding t 1 2 p by auto
    from v' t' show ?thesis by blast
  qed
qed

lemma no_conflict_no_renames:
  assumes "distinct (map path mods)" and "\<forall>name. length (declaringModules mods name) \<le> 1"
  shows "finalName (generateRenames (declarationSources mods)) m name = name"
proof -
  let ?ds = "declarationSources mods"
  have "renameEntries entry = []" if "entry \<in> set ?ds" for entry
  proof -
    obtain n s where e: "entry = (n, s)" by (cases entry)
    from declarationSources_entry(1) [OF assms(1) that [unfolded e]] assms(2)
    have "length s \<le> 1" by simp
    then show ?thesis by (simp add: renameEntries_def e)
  qed
  then have "concat (map renameEntries ?ds) = []" by simp
  then have n: "map_of (generateRenames ?ds) k = None" for k
    by (simp add: generateRenames_None)
  show ?thesis
    by (simp add: finalName_def exportsMapper_def moduleRenamesOf_def map_of_moduleRenames n)
qed

lemma diff_from_union: "A \<union> B = T \<union> V \<Longrightarrow> B = V \<Longrightarrow> A - B = T - V"
  by blast

lemma finalExports_sets:
  assumes "accumulateModules opts sortedModules bundled = Inr a"
  shows "set (fst (finalExports a))
           = (\<Union>m \<in> set (projectModules sortedModules).
                finalName (generateRenames (declarationSources sortedModules)) m ` {name. exportedAsValue m name})"
    and "set (snd (finalExports a))
           = (\<Union>m \<in> set (projectModules sortedModules).
                finalName (generateRenames (declarationSources sortedModules)) m ` {name. exportedAsType m name})
             - set (fst (finalExports a))"
proof -
  let ?rm = "generateRenames (declarationSources sortedModules)"
  let ?V = "\<Union>m \<in> set (projectModules sortedModules). finalName ?rm m ` {name. exportedAsValue m name}"
  let ?T = "\<Union>m \<in> set (projectModules sortedModules). finalName ?rm m ` {name. exportedAsType m name}"
  let ?a0 = "\<lparr>allTypeReferences = [], allFileReferences = [], allExternalImports = [],
        allTypeExports = [], allValueExports = [], codeBlocks = [], allDeclarationNames = []\<rparr>"
  from assms have f: "forEach (accumulateModule opts bundled ?rm) sortedModules ?a0 = Inr a"
    by (simp add: accumulateModules_def)
  note x = forEach_accumulateModule_exports [OF f]
  have e1: "set (allValueExports ?a0) = {}" and e2: "set (allTypeExports ?a0) = {}" by simp_all
  have v: "set (allValueExports a) = ?V"
    using x [THEN conjunct1] unfolding e1 by (simp only: Un_empty_left)
  have t: "set (allTypeExports a) \<union> set (allValueExports a) = ?T \<union> ?V"
    using x [THEN conjunct2] unfolding e1 e2 by (simp only: Un_empty_left)
  have fv: "fst (finalExports a) = newSet (allValueExports a)"
    by (simp add: finalExports_def Let_def)
  have sv: "snd (finalExports a)
      = newSet (filter (\<lambda>typeExport. typeExport \<notin> set (newSet (allValueExports a))) (allTypeExports a))"
    by (simp add: finalExports_def Let_def)
  show 1: "set (fst (finalExports a)) = ?V"
    unfolding fv set_newSet by (rule v)
  have "set (snd (finalExports a)) = set (allTypeExports a) - set (allValueExports a)"
    unfolding sv set_newSet by auto
  also have "\<dots> = ?T - ?V" by (rule diff_from_union [OF t v])
  finally show "set (snd (finalExports a)) = ?T - set (fst (finalExports a))"
    unfolding 1 .
qed

lemma combineModules_exports:
  assumes "accumulateModules opts sortedModules bundled = Inr a"
  shows "\<exists>parts. combineModules opts sortedModules bundled
           = Inr \<lparr>bundledCode = join newLine
                        (parts @ exportStatements (fst (finalExports a)) (snd (finalExports a))),
                  exports = sort (snd (finalExports a)) @ sort (fst (finalExports a)),
                  allDeclarations = allDeclarationNames a\<rparr>"
proof -
  let ?parts =
    "(if length (newSet (allFileReferences a)) > 0
      then map (\<lambda>ref. ''/// <reference path='' @ dquote @ ref @ dquote @ '' />'') (newSet (allFileReferences a)) @ ['''']
      else [])
     @ (if length (newSet (allTypeReferences a)) > 0
        then map (\<lambda>ref. ''/// <reference types='' @ dquote @ ref @ dquote @ '' />'') (newSet (allTypeReferences a)) @ ['''']
        else [])
     @ (if length (mergeImports (allExternalImports a)) > 0 then mergeImports (allExternalImports a) @ [''''] else [])
     @ [join (newLine @ newLine) (codeBlocks a)]"
  have "combineModules opts sortedModules bundled
           = Inr \<lparr>bundledCode = join newLine
                        (?parts @ exportStatements (fst (finalExports a)) (snd (finalExports a))),
                  exports = sort (snd (finalExports a)) @ sort (fst (finalExports a)),
                  allDeclarations = allDeclarationNames a\<rparr>"
    using assms by (simp add: combineModules_def Let_def)
  then show ?thesis by blast
qed

text \<open>
  C9, as stated, fails. \<open>a.d.ts\<close> declares the interface \<open>Foo\<close> and \<open>b.d.ts\<close> the class
  \<open>Foo\<close>, and both export it: \<open>Foo\<close> is a type in one module and a value in another. The
  class of the second module is renamed before the lists are compared, so the bundle
  exports \<open>Foo$1\<close> as a value and \<open>Foo\<close> in its \<open>export type\<close> list.
\<close>

theorem value_and_type_counterexample:
  "combineModules exampleOptions [firstFoo, classFoo] fooBundled
     = Inr \<lparr>bundledCode = ''interface Foo { a: string }'' @ newLine @ newLine
                            @ ''declare classFoo$1 { b: string }Foo$1'' @ newLine @ newLine
                            @ ''export { Foo$1 };'' @ newLine @ ''export type { Foo };'',
            exports = [''Foo'', ''Foo$1''], allDeclarations = [''Foo'']\<rparr>
   \<and> exportedAsType firstFoo ''Foo'' \<and> exportedAsValue classFoo ''Foo''"
  by code_simp

text \<open>
  C9, amended. When \<open>combineModules\<close> returns, its final value-export list holds the
  names, after the renaming of each module, of what the project modules export as values,
  and its final type-export list holds the names, after renaming, of what they export as
  types, except the names of the value list: the two lists have no name in common and
  neither has a duplicate, the returned \<open>exports\<close> has none either, and the output ends
  with the export statements of the two lists. When no identifier is declared by more
  than one module, nothing is renamed, and an identifier that a module exports as a value
  is in the value list only, whatever other modules export it as.
\<close>

theorem value_exports_dominate:
  assumes "accumulateModules opts sortedModules bundled = Inr a"
  shows "set (fst (finalExports a))
           = (\<Union>m \<in> set (projectModules sortedModules).
                finalName (generateRenames (declarationSources sortedModules)) m ` {name. exportedAsValue m name})
       \<and> set (snd (finalExports a))
           = (\<Union>m \<in> set (projectModules sortedModules).
                finalName (generateRenames (declarationSources sortedModules)) m ` {name. exportedAsType m name})
             - set (fst (finalExports a))
       \<and> set (fst (finalExports a)) \<inter> set (snd (finalExports a)) = {}
       \<and> distinct (fst (finalExports a)) \<and> distinct (snd (finalExports a))
       \<and> (\<exists>parts. combineModules opts sortedModules bundled
             = Inr \<lparr>bundledCode = join newLine
                          (parts @ exportStatements (fst (finalExports a)) (snd (finalExports a))),
                    exports = sort (snd (finalExports a)) @ sort (fst (finalExports a)),
                    allDeclarations = allDeclarationNames a\<rparr>)
       \<and> distinct (sort (snd (finalExports a)) @ sort (fst (finalExports a)))
       \<and> (distinct (map path sortedModules) \<and> (\<forall>name. length (declaringModules sortedModules name) \<le> 1) \<longrightarrow>
            set (fst (finalExports a))
              = {name. \<exists>m \<in> set (projectModules sortedModules). exportedAsValue m name}
            \<and> set (snd (finalExports a))
              = {name. \<exists>m \<in> set (projectModules sortedModules). exportedAsType m name}
                - {name. \<exists>m \<in> set (projectModules sortedModules). exportedAsValue m name})"
proof -
  note s = finalExports_sets [OF assms]
  have i: "set (fst (finalExports a)) \<inter> set (snd (finalExports a)) = {}"
    using s(2) by blast
  have d: "distinct (fst (finalExports a))" "distinct (snd (finalExports a))"
    by (simp_all add: finalExports_def Let_def distinct_newSet)
  have de: "distinct (sort (snd (finalExports a)) @ sort (fst (finalExports a)))"
    using d i by auto
  have n: "distinct (map path sortedModules) \<and> (\<forall>name. length (declaringModules sortedModules name) \<le> 1) \<longrightarrow>
            set (fst (finalExports a))
              = {name. \<exists>m \<in> set (projectModules sortedModules). exportedAsValue m name}
            \<and> set (snd (finalExports a))
              = {name. \<exists>m \<in> set (projectModules sortedModules). exportedAsType m name}
                - {name. \<exists>m \<in> set (projectModules sortedModules). exportedAsValue m name}"
  proof
    assume h: "distinct (map path sortedModules) \<and> (\<forall>name. length (declaringModules sortedModules name) \<le> 1)"
    then have f: "finalName (generateRenames (declarationSources sortedModules)) m = (\<lambda>name. name)" for m
      by (intro ext no_conflict_no_renames) simp_all
    have v: "set (fst (finalExports a))
              = {name. \<exists>m \<in> set (projectModules sortedModules). exportedAsValue m name}"
      unfolding s(1) f by auto
    have "set (snd (finalExports a))
              = {name. \<exists>m \<in> set (projectModules sortedModules). exportedAsType m name}
                - set (fst (finalExports a))"
      unfolding s(2) f by auto
    with v show "set (fst (finalExports a))
              = {name. \<exists>m \<in> set (projectModules sortedModules). exportedAsValue m name}
            \<and> set (snd (finalExports a))
              = {name. \<exists>m \<in> set (projectModules sortedModules). exportedAsType m name}
                - {name. \<exists>m \<in> set (projectModules sortedModules). exportedAsValue m name}"
      by simp
  qed
  from s(1) s(2) i d(1) d(2) combineModules_exports [OF assms] de n
  show ?thesis by (intro conjI)
qed

theorem value_exports_dominate_witness:
  "accumulateModules exampleOptions [typesModule, indexModule] (bundledSpecifiers exampleGraph)
     = Inr \<lparr>allTypeReferences = [], allFileReferences = [], allExternalImports = [],
            allTypeExports = [''User''], allValueExports = [''User''],
            codeBlocks = [''interface User { name: string }''], allDeclarationNames = [''User'']\<rparr>
   \<and> exportedAsType typesModule ''User'' \<and> exportedAsValue indexModule ''User''
   \<and> ''User'' \<in> set (fst (finalExports \<lparr>allTypeReferences = [], allFileReferences = [], allExternalImports = [],
            allTypeExports = [''User''], allValueExports = [''User''],
            codeBlocks = [''interface User { name: string }''], allDeclarationNames = [''User'']\<rparr>))
   \<and> ''User'' \<notin> set (snd (finalExports \<lparr>allTypeReferences = [], allFileReferences = [], allExternalImports = [],
            allTypeExports = [''User''], allValueExports = [''User''],
            codeBlocks = [''interface User { name: string }''], allDeclarationNames = [''User'']\<rparr>))"
proof -
  let ?mods = "[typesModule, indexModule]"
  let ?a = "\<lparr>allTypeReferences = [], allFileReferences = [], allExternalImports = [],
            allTypeExports = [''User''], allValueExports = [''User''],
            codeBlocks = [''interface User { name: string }''], allDeclarationNames = [''User'']\<rparr>"
  have a: "accumulateModules exampleOptions ?mods (bundledSpecifiers exampleGraph) = Inr ?a"
    by code_simp
  have t: "exportedAsType typesModule ''User''" by code_simp
  have v: "exportedAsValue indexModule ''User''" by code_simp
  have p: "projectModules ?mods = ?mods" by code_simp
  have dm: "distinct (map path ?mods)" by code_simp
  have dn: "length (declaringModules ?mods name) \<le> 1" for name
    by (simp add: declaringModules_def declaredNames_def typesModule_def indexModule_def)
  from value_exports_dominate [OF a] dm dn
  have "set (fst (finalExports ?a)) = {name. \<exists>m \<in> set (projectModules ?mods). exportedAsValue m name}"
    and "set (fst (finalExports ?a)) \<inter> set (snd (finalExports ?a)) = {}"
    by blast+
  with v p have "''User'' \<in> set (fst (finalExports ?a))" and "''User'' \<notin> set (snd (finalExports ?a))"
    by auto
  with a t v show ?thesis by blast
qed

section \<open>Properties of postProcess\<close>



















text \<open>
  The branch of the source for \<open>.d.tsx\<close> is never taken: a specifier that ends with
  \<open>.d.tsx\<close> does not end with \<open>.d.ts\<close>, so it fails the guard and is left as it is.
\<close>

lemma specifierReplacement_dtsx: "specifierReplacement ''./view.d.tsx'' = None"
  by code_simp

section \<open>Properties of preProcess\<close>

text \<open>
  On the import forms the pass is written for, it strips the type markers: the inline
  marker of a named import and the phase modifier of \<open>import type\<close>.
\<close>

lemma preProcess_strips_type_markers:
  "code (preProcess \<lparr>fullText = ''import { foo, type Bar, baz } from '' @ dquote @ ''m'' @ dquote @ '';'',
                     importNodes = [\<lparr>importStart = 0, importEnd = 39, typePhase = False\<rparr>]\<rparr>)
     = ''import { foo, Bar, baz } from '' @ dquote @ ''m'' @ dquote @ '';''"
  "code (preProcess \<lparr>fullText = ''import type { A } from '' @ dquote @ ''m'' @ dquote @ '';'',
                     importNodes = [\<lparr>importStart = 0, importEnd = 27, typePhase = True\<rparr>]\<rparr>)
     = ''import { A } from '' @ dquote @ ''m'' @ dquote @ '';''"
  by code_simp+

text \<open>
  C1, evaluated at the declaration file \<^verbatim>\<open>import { type type } from "./x";\<close>, a type-only
  import of an export named \<open>type\<close>. Pre-processing strips the marker and gives
  \<^verbatim>\<open>import { type } from "./x";\<close>. That text is again one import declaration without
  phase modifier, and pre-processing it strips the imported name, giving
  \<^verbatim>\<open>import { } from "./x";\<close>: the second result differs from the first.
\<close>

theorem preProcess_not_idempotent:
  "code (preProcess \<lparr>fullText = ''import { type type } from '' @ dquote @ ''./x'' @ dquote @ '';'',
                     importNodes = [\<lparr>importStart = 0, importEnd = 32, typePhase = False\<rparr>]\<rparr>)
     = ''import { type } from '' @ dquote @ ''./x'' @ dquote @ '';''
   \<and> code (preProcess \<lparr>fullText = ''import { type } from '' @ dquote @ ''./x'' @ dquote @ '';'',
                     importNodes = [\<lparr>importStart = 0, importEnd = 27, typePhase = False\<rparr>]\<rparr>)
     = ''import { } from '' @ dquote @ ''./x'' @ dquote @ '';''"
  by code_simp

section \<open>Properties of the module graph\<close>

lemma hasKey_iff: "hasKey m k = (k \<in> keysOf m)"
  by (simp add: hasKey_def keysOf_def map_of_eq_None_iff)

lemma keysOf_mapSet: "keysOf (mapSet k v m) = insert k (keysOf m)"
  by (simp add: keysOf_def keys_mapSet)

lemma extends_refl: "extends st st"
  by (simp add: extends_def)

lemma extends_trans: "extends a b \<Longrightarrow> extends b c \<Longrightarrow> extends a c"
  unfolding extends_def by (meson subset_trans)

lemma accInv_mono: "accInv p acc st \<Longrightarrow> extends st st' \<Longrightarrow> accInv p acc st'"
  unfolding accInv_def extends_def by (meson subset_iff)

lemma accInv_add:
  assumes "accInv p acc st" and "map_of (moduleResolutionCache st) (cacheKey s p) = Some rp"
    and "rp \<in> set (visited st)"
  shows "accInv p ((fst acc)\<lparr>importPaths := setAdd rp (importPaths (fst acc))\<rparr>, snd acc @ [s]) st"
  using assms by (auto simp: accInv_def setAdd_def)


lemma graphInv_start:
  assumes "graphInv h S st"
  shows "graphInv h (insert p S) (st\<lparr>visited := visited st @ [p]\<rparr>)"
proof -
  from assms have
    1: "\<forall>k \<in> keysOf (bundlerFiles st). resolvePath h k = k" and
    2: "\<forall>k v. map_of (moduleResolutionCache st) k = Some v \<longrightarrow> resolvePath h v = v" and
    3: "\<forall>q m. map_of (modules st) q = Some m \<longrightarrow> set (importPaths m) \<subseteq> set (visited st)" and
    4: "set (visited st) \<subseteq> keysOf (modules st) \<union> S" and
    5: "\<forall>q specs. map_of (bundledSpecifiers st) q = Some specs \<longrightarrow>
            (\<forall>s \<in> set specs. \<exists>rp. map_of (moduleResolutionCache st) (cacheKey s q) = Some rp
                                  \<and> rp \<in> set (visited st))"
    unfolding graphInv_def by blast+
  from 3 have n3: "\<forall>q m. map_of (modules st) q = Some m \<longrightarrow> set (importPaths m) \<subseteq> insert p (set (visited st))"
    by blast
  from 4 have n4: "insert p (set (visited st)) \<subseteq> keysOf (modules st) \<union> insert p S"
    by blast
  from 5 have n5: "\<forall>q specs. map_of (bundledSpecifiers st) q = Some specs \<longrightarrow>
            (\<forall>s \<in> set specs. \<exists>rp. map_of (moduleResolutionCache st) (cacheKey s q) = Some rp
                                  \<and> rp \<in> insert p (set (visited st)))"
    by blast
  from 1 2 n3 n4 n5 show ?thesis
    unfolding graphInv_def by simp
qed

lemma graphInv_finish:
  assumes "graphInv h (insert p S) st" and "accInv p (module, specs) st"
  shows "graphInv h S (st\<lparr>modules := mapSet p module (modules st),
                          bundledSpecifiers := mapSet p specs (bundledSpecifiers st)\<rparr>)"
proof -
  from assms(1) have
    1: "\<forall>k \<in> keysOf (bundlerFiles st). resolvePath h k = k" and
    2: "\<forall>k v. map_of (moduleResolutionCache st) k = Some v \<longrightarrow> resolvePath h v = v" and
    3: "\<forall>q m. map_of (modules st) q = Some m \<longrightarrow> set (importPaths m) \<subseteq> set (visited st)" and
    4: "set (visited st) \<subseteq> keysOf (modules st) \<union> insert p S" and
    5: "\<forall>q sp. map_of (bundledSpecifiers st) q = Some sp \<longrightarrow>
            (\<forall>s \<in> set sp. \<exists>rp. map_of (moduleResolutionCache st) (cacheKey s q) = Some rp
                                  \<and> rp \<in> set (visited st))"
    unfolding graphInv_def by blast+
  from assms(2) have
    a: "set (importPaths module) \<subseteq> set (visited st)" and
    b: "\<forall>s \<in> set specs. \<exists>rp. map_of (moduleResolutionCache st) (cacheKey s p) = Some rp
                                    \<and> rp \<in> set (visited st)"
    unfolding accInv_def by simp_all
  from 3 a have n3: "\<forall>q m. map_of (mapSet p module (modules st)) q = Some m \<longrightarrow>
                        set (importPaths m) \<subseteq> set (visited st)"
    by (simp add: map_of_mapSet)
  from 4 have n4: "set (visited st) \<subseteq> keysOf (mapSet p module (modules st)) \<union> S"
    by (auto simp: keysOf_mapSet)
  from 5 b have n5: "\<forall>q sp. map_of (mapSet p specs (bundledSpecifiers st)) q = Some sp \<longrightarrow>
            (\<forall>s \<in> set sp. \<exists>rp. map_of (moduleResolutionCache st) (cacheKey s q) = Some rp
                                  \<and> rp \<in> set (visited st))"
    by (simp add: map_of_mapSet)
  from 1 2 n3 n4 n5 show ?thesis
    unfolding graphInv_def by simp
qed


lemma graphInv_update:
  assumes "graphInv h S st"
    and "\<forall>k \<in> keysOf ds'. resolvePath h k = k"
    and "\<forall>k v. map_of c' k = Some v \<longrightarrow> resolvePath h v = v"
    and "\<forall>k v. map_of (moduleResolutionCache st) k = Some v \<longrightarrow> map_of c' k = Some v"
  shows "graphInv h S (st\<lparr>bundlerFiles := ds', moduleResolutionCache := c'\<rparr>)"
proof -
  from assms(1) have
    3: "\<forall>q m. map_of (modules st) q = Some m \<longrightarrow> set (importPaths m) \<subseteq> set (visited st)" and
    4: "set (visited st) \<subseteq> keysOf (modules st) \<union> S" and
    5: "\<forall>q sp. map_of (bundledSpecifiers st) q = Some sp \<longrightarrow>
            (\<forall>s \<in> set sp. \<exists>rp. map_of (moduleResolutionCache st) (cacheKey s q) = Some rp
                                  \<and> rp \<in> set (visited st))"
    unfolding graphInv_def by blast+
  from 5 assms(4) have n5: "\<forall>q sp. map_of (bundledSpecifiers st) q = Some sp \<longrightarrow>
            (\<forall>s \<in> set sp. \<exists>rp. map_of c' (cacheKey s q) = Some rp \<and> rp \<in> set (visited st))"
    by meson
  from assms(2,3) 3 4 n5 show ?thesis
    unfolding graphInv_def by simp
qed

lemma extends_update:
  assumes "keysOf (bundlerFiles st) \<subseteq> keysOf ds'"
    and "\<forall>k v. map_of (moduleResolutionCache st) k = Some v \<longrightarrow> map_of c' k = Some v"
  shows "extends st (st\<lparr>bundlerFiles := ds', moduleResolutionCache := c'\<rparr>)"
  using assms by (simp add: extends_def)

lemma findDeclarationPath_in: "findDeclarationPath out w ks = Some d \<Longrightarrow> d \<in> set ks"
  by (induction ks) (auto simp: Let_def split: if_splits)

lemma sourceToDeclarationPath_cases:
  "sourceToDeclarationPath h opts ds sp = sp \<or> sourceToDeclarationPath h opts ds sp \<in> keysOf ds"
proof (cases "rootDirOption opts")
  case True
  then show ?thesis
    by (simp add: sourceToDeclarationPath_def Let_def hasKey_iff)
next
  case False
  show ?thesis
  proof (cases "findDeclarationPath (outDir opts) (sourceWithoutExt sp) (map fst ds)")
    case None
    with False show ?thesis by (simp add: sourceToDeclarationPath_def)
  next
    case (Some d)
    from findDeclarationPath_in [OF this] have "d \<in> keysOf ds" by (simp add: keysOf_def)
    with False Some show ?thesis by (simp add: sourceToDeclarationPath_def)
  qed
qed

lemma resolveModule_inv:
  assumes H: "normalizedResolver h" and I: "graphInv h S st"
    and R: "resolveModule h opts st s p = Inr (r, st1)"
  shows "graphInv h S st1" and "extends st st1" and "visited st1 = visited st"
    and "\<forall>rp. r = Some rp \<longrightarrow> map_of (moduleResolutionCache st1) (cacheKey s p) = Some rp"
proof -
  from I have
    i1: "\<forall>k \<in> keysOf (bundlerFiles st). resolvePath h k = k" and
    i2: "\<forall>k v. map_of (moduleResolutionCache st) k = Some v \<longrightarrow> resolvePath h v = v"
    unfolding graphInv_def by blast+
  have "graphInv h S st1 \<and> extends st st1 \<and> visited st1 = visited st
      \<and> (\<forall>rp. r = Some rp \<longrightarrow> map_of (moduleResolutionCache st1) (cacheKey s p) = Some rp)"
  proof (cases "map_of (moduleResolutionCache st) (cacheKey s p)")
    case (Some c)
    with R have "r = Some c" "st1 = st" by (simp_all add: resolveModule_def)
    with Some I show ?thesis by (simp add: extends_refl)
  next
    case None
    with R obtain r0 ds' where N: "resolveModuleName h (bundlerFiles st) s p = Inr (r0, ds')"
      by (auto simp: resolveModule_def split: sum.splits)
    from H N have
      h1: "\<forall>x. r0 = Some x \<longrightarrow> resolvePath h x = x" and
      h2: "keysOf (bundlerFiles st) \<subseteq> keysOf ds'" and
      h3: "\<forall>k \<in> keysOf ds'. k \<in> keysOf (bundlerFiles st) \<or> resolvePath h k = k"
      unfolding normalizedResolver_def by blast+
    from h3 i1 have k: "\<forall>k \<in> keysOf ds'. resolvePath h k = k" by blast
    show ?thesis
    proof (cases r0)
      case n: None
      with R None N have r: "r = None" and st1: "st1 = st\<lparr>bundlerFiles := ds'\<rparr>"
        by (simp_all add: resolveModule_def)
      have "st\<lparr>bundlerFiles := ds'\<rparr> = st\<lparr>bundlerFiles := ds', moduleResolutionCache := moduleResolutionCache st\<rparr>"
        by simp
      with graphInv_update [OF I k i2]
        extends_update [OF h2, of "moduleResolutionCache st"] r st1
      show ?thesis by simp
    next
      case (Some x)
      define rf where "rf = (if pathsOption opts \<and> matchesSourceScript x
                       then sourceToDeclarationPath h opts ds' x else x)"
      define c' where "c' = mapSet (cacheKey s p) rf (moduleResolutionCache st)"
      from R None N Some have r: "r = Some rf"
        and st1: "st1 = st\<lparr>bundlerFiles := ds', moduleResolutionCache := c'\<rparr>"
        by (simp_all add: resolveModule_def rf_def c'_def Let_def)
      from h1 Some have "resolvePath h x = x" by simp
      with k sourceToDeclarationPath_cases [of h opts ds' x] have nrf: "resolvePath h rf = rf"
        unfolding rf_def by auto
      from i2 nrf have c2: "\<forall>k v. map_of c' k = Some v \<longrightarrow> resolvePath h v = v"
        by (simp add: c'_def map_of_mapSet)
      from None have c3: "\<forall>k v. map_of (moduleResolutionCache st) k = Some v \<longrightarrow> map_of c' k = Some v"
        by (auto simp: c'_def map_of_mapSet)
      have c4: "map_of c' (cacheKey s p) = Some rf"
        by (simp add: c'_def map_of_mapSet)
      from graphInv_update [OF I k c2 c3] extends_update [OF h2 c3] r st1 c4
      show ?thesis by simp
    qed
  qed
  then show "graphInv h S st1" and "extends st st1" and "visited st1 = visited st"
    and "\<forall>rp. r = Some rp \<longrightarrow> map_of (moduleResolutionCache st1) (cacheKey s p) = Some rp"
    by blast+
qed

lemma loadResolved_inv:
  assumes I: "graphInv h S st"
    and N: "\<forall>rp. r = Some rp \<longrightarrow> resolvePath h rp = rp"
    and L: "loadResolved h opts r st = Inr st2"
  shows "graphInv h S st2" and "extends st st2" and "visited st2 = visited st"
    and "moduleResolutionCache st2 = moduleResolutionCache st"
proof -
  from I have
    i1: "\<forall>k \<in> keysOf (bundlerFiles st). resolvePath h k = k" and
    i2: "\<forall>k v. map_of (moduleResolutionCache st) k = Some v \<longrightarrow> resolvePath h v = v"
    unfolding graphInv_def by blast+
  have "st2 = st \<or> (\<exists>rp d. r = Some rp \<and> st2 = st\<lparr>bundlerFiles := mapSet rp d (bundlerFiles st)\<rparr>)"
    using L by (auto simp: loadResolved_def split: option.splits if_splits sum.splits)
  then have "graphInv h S st2 \<and> extends st st2 \<and> visited st2 = visited st
      \<and> moduleResolutionCache st2 = moduleResolutionCache st"
  proof
    assume "st2 = st"
    with I show ?thesis by (simp add: extends_refl)
  next
    assume "\<exists>rp d. r = Some rp \<and> st2 = st\<lparr>bundlerFiles := mapSet rp d (bundlerFiles st)\<rparr>"
    then obtain rp d where rp: "r = Some rp" and st2: "st2 = st\<lparr>bundlerFiles := mapSet rp d (bundlerFiles st)\<rparr>"
      by blast
    from N rp i1 have k: "\<forall>k \<in> keysOf (mapSet rp d (bundlerFiles st)). resolvePath h k = k"
      by (simp add: keysOf_mapSet)
    have e: "st\<lparr>bundlerFiles := mapSet rp d (bundlerFiles st)\<rparr>
           = st\<lparr>bundlerFiles := mapSet rp d (bundlerFiles st), moduleResolutionCache := moduleResolutionCache st\<rparr>"
      by simp
    have sub: "keysOf (bundlerFiles st) \<subseteq> keysOf (mapSet rp d (bundlerFiles st))"
      by (auto simp: keysOf_mapSet)
    from graphInv_update [OF I k i2]
      extends_update [OF sub, of "moduleResolutionCache st"] e st2
    show ?thesis by simp
  qed
  then show "graphInv h S st2" and "extends st st2" and "visited st2 = visited st"
    and "moduleResolutionCache st2 = moduleResolutionCache st"
    by blast+
qed


lemma extends_visited_cache:
  "extends st st' \<Longrightarrow> map_of (moduleResolutionCache st) k = Some v
     \<Longrightarrow> map_of (moduleResolutionCache st') k = Some v"
  by (simp add: extends_def)

lemma extends_visited: "extends st st' \<Longrightarrow> x \<in> set (visited st) \<Longrightarrow> x \<in> set (visited st')"
  by (auto simp: extends_def)

lemma graphInv_cache_normal:
  "graphInv h S st \<Longrightarrow> map_of (moduleResolutionCache st) k = Some v \<Longrightarrow> resolvePath h v = v"
  unfolding graphInv_def by blast

lemma walk_invariant:
  "(normalizedResolver h \<longrightarrow>
      (\<forall>S st'. graphInv h S st \<longrightarrow> hasKey (bundlerFiles st) (resolvePath h p) \<longrightarrow>
         visit n h opts p st = Some (Inr st') \<longrightarrow>
         graphInv h S st' \<and> extends st st' \<and> resolvePath h p \<in> set (visited st')))"
  "(normalizedResolver h \<longrightarrow>
      (\<forall>S acc' st'. graphInv h S st \<longrightarrow> accInv p acc st \<longrightarrow>
         visitImports n h opts p specs acc st = Some (Inr (acc', st')) \<longrightarrow>
         graphInv h S st' \<and> extends st st' \<and> accInv p acc' st'))"
proof (induction n h opts p st and n h opts p specs acc st rule: visit_visitImports.induct)
  case (1 h opts p st)
  show ?case by simp
next
  case (2 n h opts p st)
  show ?case
  proof (intro impI allI)
    fix S st'
    assume H: "normalizedResolver h" and I: "graphInv h S st"
      and K: "hasKey (bundlerFiles st) (resolvePath h p)"
      and V: "visit (Suc n) h opts p st = Some (Inr st')"
    define p' where "p' = resolvePath h p"
    show "graphInv h S st' \<and> extends st st' \<and> resolvePath h p \<in> set (visited st')"
    proof (cases "p' \<in> set (visited st)")
      case True
      with V have "st' = st" by (simp add: p'_def)
      with True I show ?thesis by (simp add: extends_refl p'_def)
    next
      case False
      define st1 where "st1 = st\<lparr>visited := visited st @ [p']\<rparr>"
      from K obtain cached where c: "map_of (bundlerFiles st1) p' = Some cached"
        by (auto simp: hasKey_def st1_def p'_def)
      from V False c obtain module specs st2 where
        W: "visitImports n h opts p' (extractImports (createSourceFile h p' (code cached)))
              (newModule h p' cached, []) st1 = Some (Inr ((module, specs), st2))"
        and st': "st' = st2\<lparr>modules := mapSet p' module (modules st2),
                             bundledSpecifiers := mapSet p' specs (bundledSpecifiers st2)\<rparr>"
        by (auto simp: p'_def st1_def Let_def split: option.splits sum.splits)
      have I1: "graphInv h (insert p' S) st1"
        unfolding st1_def by (rule graphInv_start [OF I])
      have A1: "accInv p' (newModule h p' cached, []) st1"
        by (simp add: accInv_def newModule_def)
      from "2.IH" [OF p'_def False st1_def c] H I1 A1 W
      have R: "graphInv h (insert p' S) st2" "extends st1 st2" "accInv p' (module, specs) st2"
        by blast+
      from graphInv_finish [OF R(1) R(3)] st' have G: "graphInv h S st'" by simp
      have e1: "extends st st1" by (auto simp: extends_def st1_def)
      have e2: "extends st2 st'" by (simp add: extends_def st')
      from e1 R(2) e2 have E: "extends st st'" by (blast intro: extends_trans)
      have "p' \<in> set (visited st1)" by (simp add: st1_def)
      with R(2) e2 have "p' \<in> set (visited st')" by (blast intro: extends_visited)
      with G E show ?thesis by (simp add: p'_def)
    qed
  qed
next
  case (3 n h opts p acc st)
  show ?case by (simp add: extends_refl)
next
  case (4 n h opts p specifier rest acc st)
  show ?case
  proof (intro impI allI)
    fix S acc' st'
    assume H: "normalizedResolver h" and I: "graphInv h S st" and A: "accInv p acc st"
      and V: "visitImports n h opts p (specifier # rest) acc st = Some (Inr (acc', st'))"
    show "graphInv h S st' \<and> extends st st' \<and> accInv p acc' st'"
    proof (cases "isExternal opts specifier")
      case True
      with V have "visitImports n h opts p rest acc st = Some (Inr (acc', st'))" by simp
      with "4.IH"(1) [OF True] H I A show ?thesis by blast
    next
      case False
      from V False obtain x y where R: "resolveModule h opts st specifier p = Inr (x, y)"
        by (cases "resolveModule h opts st specifier p") auto
      note ri = resolveModule_inv [OF H I R]
      from accInv_mono [OF A ri(2)] have Ay: "accInv p acc y" .
      show ?thesis
      proof (cases "skipsNodeModules opts specifier x")
        case True
        with V False R have "visitImports n h opts p rest acc y = Some (Inr (acc', st'))"
          by simp
        with "4.IH"(2) [OF False R refl True] H ri(1) Ay
        have "graphInv h S st' \<and> extends y st' \<and> accInv p acc' st'" by blast
        with ri(2) show ?thesis by (blast intro: extends_trans)
      next
        case nskip: False
        from V False R nskip obtain ba where L: "loadResolved h opts x y = Inr ba"
          by (cases "loadResolved h opts x y") auto
        have N: "\<forall>rp. x = Some rp \<longrightarrow> resolvePath h rp = rp"
          using ri(4) graphInv_cache_normal [OF ri(1)] by blast
        note li = loadResolved_inv [OF ri(1) N L]
        from accInv_mono [OF Ay li(2)] have Aba: "accInv p acc ba" .
        from ri(2) li(2) have Eba: "extends st ba" by (rule extends_trans)
        show ?thesis
        proof (cases x)
          case None
          with V False R nskip L have "visitImports n h opts p rest acc ba = Some (Inr (acc', st'))"
            by simp
          with "4.IH"(3) [OF False R refl nskip L None] H li(1) Aba
          have "graphInv h S st' \<and> extends ba st' \<and> accInv p acc' st'" by blast
          with Eba show ?thesis by (blast intro: extends_trans)
        next
          case (Some x2)
          show ?thesis
          proof (cases "hasKey (bundlerFiles ba) x2")
            case True
            from V False R nskip L Some True obtain bb where
              Vx: "visit n h opts x2 ba = Some (Inr bb)"
              and Vr: "visitImports n h opts p rest
                         ((fst acc)\<lparr>importPaths := setAdd x2 (importPaths (fst acc))\<rparr>, snd acc @ [specifier]) bb
                       = Some (Inr (acc', st'))"
              by (auto split: option.splits sum.splits)
            from N Some have nx: "resolvePath h x2 = x2" by simp
            with True have K: "hasKey (bundlerFiles ba) (resolvePath h x2)" by simp
            from "4.IH"(4) [OF False R refl nskip L Some True] H li(1) K Vx nx
            have P: "graphInv h S bb" "extends ba bb" "x2 \<in> set (visited bb)" by auto
            from ri(4) Some li(4) have "map_of (moduleResolutionCache ba) (cacheKey specifier p) = Some x2"
              by simp
            from extends_visited_cache [OF P(2) this]
            have ck: "map_of (moduleResolutionCache bb) (cacheKey specifier p) = Some x2" .
            from accInv_add [OF accInv_mono [OF Aba P(2)] ck P(3)]
            have Abb: "accInv p ((fst acc)\<lparr>importPaths := setAdd x2 (importPaths (fst acc))\<rparr>,
                                 snd acc @ [specifier]) bb" .
            from "4.IH"(5) [OF False R refl nskip L Some True Vx refl] H P(1) Abb Vr
            have "graphInv h S st' \<and> extends bb st' \<and> accInv p acc' st'" by blast
            with Eba P(2) show ?thesis by (blast intro: extends_trans)
          next
            case nk: False
            with V False R nskip L Some have "visitImports n h opts p rest acc ba = Some (Inr (acc', st'))"
              by auto
            with "4.IH"(6) [OF False R refl nskip L Some nk] H li(1) Aba
            have "graphInv h S st' \<and> extends ba st' \<and> accInv p acc' st'" by blast
            with Eba show ?thesis by (blast intro: extends_trans)
          qed
        qed
      qed
    qed
  qed
qed


lemma keysOf_constructor:
  "keysOf (fold (\<lambda>(filePath, cachedDecl) m. mapSet (resolvePath h filePath) cachedDecl m) ds m0)
     = keysOf m0 \<union> resolvePath h ` fst ` set ds"
  by (induction ds arbitrary: m0) (auto simp: keysOf_mapSet)

lemma new_DeclarationBundler_normalized:
  assumes "normalizedResolver h"
  shows "bundlerNormalized h (new_DeclarationBundler h declarations)"
proof -
  from assms have "\<forall>x. resolvePath h (resolvePath h x) = resolvePath h x"
    unfolding normalizedResolver_def by blast
  moreover have "keysOf (bundlerFiles (new_DeclarationBundler h declarations))
                   = resolvePath h ` fst ` set declarations"
    by (simp add: new_DeclarationBundler_def keysOf_constructor) (simp add: keysOf_def)
  ultimately show ?thesis
    by (auto simp: bundlerNormalized_def new_DeclarationBundler_def)
qed

lemma graphInv_initial:
  assumes "bundlerNormalized h b"
  shows "graphInv h {} \<lparr>bundlerFiles = bundlerFiles b, moduleResolutionCache = moduleResolutionCache b,
                        visited = [], modules = [], bundledSpecifiers = []\<rparr>"
  using assms unfolding graphInv_def bundlerNormalized_def by simp

lemma importsOf_closed:
  assumes "\<forall>p m. map_of (modules g) p = Some m \<longrightarrow> set (importPaths m) \<subseteq> keysOf (modules g)"
    and "(a, q) \<in> (importsOf g)\<^sup>+"
  shows "q \<in> keysOf (modules g)"
proof -
  from assms(2) obtain b where "(b, q) \<in> importsOf g"
    by (meson tranclE)
  with assms(1) show ?thesis by (auto simp: importsOf_def)
qed

text \<open>
  The bound on the depth only decides whether the walk returns: with a larger bound a
  walk that returned returns the same.
\<close>

lemma fuel_step:
  "(\<forall>r. visit n h opts p st = Some r \<longrightarrow> visit (Suc n) h opts p st = Some r)"
  "(\<forall>r. visitImports n h opts p specs acc st = Some r \<longrightarrow> visitImports (Suc n) h opts p specs acc st = Some r)"
proof (induction n h opts p st and n h opts p specs acc st rule: visit_visitImports.induct)
  case (1 h opts p st)
  show ?case by simp
next
  case (2 n h opts p st)
  show ?case
  proof (intro allI impI)
    fix r assume V: "visit (Suc n) h opts p st = Some r"
    let ?p' = "resolvePath h p"
    let ?st1 = "st\<lparr>visited := visited st @ [?p']\<rparr>"
    show "visit (Suc (Suc n)) h opts p st = Some r"
    proof (cases "?p' \<in> set (visited st)")
      case True
      with V show ?thesis by simp
    next
      case False
      show ?thesis
      proof (cases "map_of (bundlerFiles ?st1) ?p'")
        case None
        with V False show ?thesis by (simp add: Let_def)
      next
        case (Some cached)
        let ?call = "\<lambda>k. visitImports k h opts ?p' (extractImports (createSourceFile h ?p' (code cached)))
              (newModule h ?p' cached, []) ?st1"
        from V False Some obtain x where x: "?call n = Some x"
          by (cases "?call n") (auto simp: Let_def)
        with "2.IH" [OF refl False refl Some] have y: "?call (Suc n) = Some x" by blast
        have a: "visit (Suc n) h opts p st = (case ?call n of None \<Rightarrow> None
                       | Some (Inl e) \<Rightarrow> Some (Inl e)
                       | Some (Inr ((module, bundledSpecs), st2)) \<Rightarrow>
                           Some (Inr (st2\<lparr>modules := mapSet ?p' module (modules st2),
                                         bundledSpecifiers := mapSet ?p' bundledSpecs (bundledSpecifiers st2)\<rparr>)))"
          using False Some by (simp add: Let_def)
        have b: "visit (Suc (Suc n)) h opts p st = (case ?call (Suc n) of None \<Rightarrow> None
                       | Some (Inl e) \<Rightarrow> Some (Inl e)
                       | Some (Inr ((module, bundledSpecs), st2)) \<Rightarrow>
                           Some (Inr (st2\<lparr>modules := mapSet ?p' module (modules st2),
                                         bundledSpecifiers := mapSet ?p' bundledSpecs (bundledSpecifiers st2)\<rparr>)))"
          using False Some by (simp add: Let_def del: visitImports.simps)
        from a b x y V show ?thesis by simp
      qed
    qed
  qed
next
  case (3 n h opts p acc st)
  show ?case by simp
next
  case (4 n h opts p specifier rest acc st)
  show ?case
  proof (intro allI impI)
    fix r assume V: "visitImports n h opts p (specifier # rest) acc st = Some r"
    show "visitImports (Suc n) h opts p (specifier # rest) acc st = Some r"
    proof (cases "isExternal opts specifier")
      case True
      with V "4.IH"(1) [OF True] show ?thesis by simp
    next
      case False
      show ?thesis
      proof (cases "resolveModule h opts st specifier p")
        case (Inl e)
        with V False show ?thesis by simp
      next
        case (Inr b)
        obtain x y where b: "b = (x, y)" by (cases b)
        note R = Inr [unfolded b]
        show ?thesis
        proof (cases "skipsNodeModules opts specifier x")
          case True
          with V False R have "visitImports n h opts p rest acc y = Some r" by simp
          with "4.IH"(2) [OF False R refl True]
          have "visitImports (Suc n) h opts p rest acc y = Some r" by blast
          with False R True show ?thesis by (simp del: visit.simps)
        next
          case nskip: False
          show ?thesis
          proof (cases "loadResolved h opts x y")
            case (Inl e)
            with V False R nskip show ?thesis by simp
          next
            case L: (Inr ba)
            show ?thesis
            proof (cases x)
              case None
              with V False R nskip L have "visitImports n h opts p rest acc ba = Some r"
                by simp
              with "4.IH"(3) [OF False R refl nskip L None]
              have "visitImports (Suc n) h opts p rest acc ba = Some r" by blast
              with False R nskip L None show ?thesis by (simp del: visit.simps)
            next
              case (Some x2)
              show ?thesis
              proof (cases "hasKey (bundlerFiles ba) x2")
                case nk: False
                with V False R nskip L Some have "visitImports n h opts p rest acc ba = Some r"
                  by auto
                with "4.IH"(6) [OF False R refl nskip L Some nk]
                have "visitImports (Suc n) h opts p rest acc ba = Some r" by blast
                with False R nskip L Some nk show ?thesis by (auto simp del: visit.simps)
              next
                case True
                let ?acc = "((fst acc)\<lparr>importPaths := setAdd x2 (importPaths (fst acc))\<rparr>, snd acc @ [specifier])"
                have a: "visitImports n h opts p (specifier # rest) acc st
                       = (case visit n h opts x2 ba of None \<Rightarrow> None | Some (Inl e) \<Rightarrow> Some (Inl e)
                          | Some (Inr st3) \<Rightarrow> visitImports n h opts p rest ?acc st3)"
                  using False R nskip L Some True by auto
                have c: "visitImports (Suc n) h opts p (specifier # rest) acc st
                       = (case visit (Suc n) h opts x2 ba of None \<Rightarrow> None | Some (Inl e) \<Rightarrow> Some (Inl e)
                          | Some (Inr st3) \<Rightarrow> visitImports (Suc n) h opts p rest ?acc st3)"
                  using False R nskip L Some True by (auto simp del: visit.simps)
                from V a obtain v where v: "visit n h opts x2 ba = Some v"
                  by (cases "visit n h opts x2 ba") auto
                with "4.IH"(4) [OF False R refl nskip L Some True]
                have v': "visit (Suc n) h opts x2 ba = Some v" by blast
                show ?thesis
                proof (cases v)
                  case (Inl e)
                  with V a c v v' show ?thesis by simp
                next
                  case (Inr bb)
                  with V a v have "visitImports n h opts p rest ?acc bb = Some r" by simp
                  with "4.IH"(5) [OF False R refl nskip L Some True v Inr]
                  have "visitImports (Suc n) h opts p rest ?acc bb = Some r" by blast
                  with c v' Inr show ?thesis by simp
                qed
              qed
            qed
          qed
        qed
      qed
    qed
  qed
qed

lemma visit_fuel_mono: "visit n h opts p st = Some r \<Longrightarrow> visit (n + k) h opts p st = Some r"
  by (induction k) (auto simp del: visit.simps dest: fuel_step(1) [rule_format])

lemma buildModuleGraph_fuel_mono:
  "buildModuleGraph n h opts b entryPoint = Some r \<Longrightarrow> buildModuleGraph (n + k) h opts b entryPoint = Some r"
  unfolding buildModuleGraph_def by (rule visit_fuel_mono)

text \<open>
  The graph on resolved paths. Let the resolver return paths that \<open>sys.resolvePath\<close>
  leaves as they are and only add files to the store under such paths, and let
  \<open>buildModuleGraph\<close> return a graph for an entry point on a bundler whose store keys and
  cached resolutions are such paths, as they are after the constructor. Then every import
  of a module of the graph is a key of \<open>modules\<close>, so every path reachable from the entry
  point through the \<open>imports\<close> sets is one; the entry point itself is a key when the
  store holds it; and every specifier in \<open>bundledSpecifiers[p]\<close> has a resolution, the one
  \<open>resolveModule\<close> returned and cached for it and \<open>p\<close>, that is a key of \<open>modules\<close>.
\<close>

lemma module_graph_closed_on_resolved_paths:
  assumes "normalizedResolver h" and "bundlerNormalized h b"
    and "buildModuleGraph fuel h opts b entryPoint = Some (Inr g)"
  shows "(\<forall>p m. map_of (modules g) p = Some m \<longrightarrow> set (importPaths m) \<subseteq> keysOf (modules g))
       \<and> (\<forall>q. (resolvePath h entryPoint, q) \<in> (importsOf g)\<^sup>+ \<longrightarrow> q \<in> keysOf (modules g))
       \<and> (hasKey (bundlerFiles b) (resolvePath h entryPoint) \<longrightarrow>
            resolvePath h entryPoint \<in> keysOf (modules g))
       \<and> (\<forall>p specs s. map_of (bundledSpecifiers g) p = Some specs \<and> s \<in> set specs \<longrightarrow>
            (\<exists>rp. map_of (moduleResolutionCache g) (cacheKey s p) = Some rp \<and> rp \<in> keysOf (modules g)))
       \<and> bundlerNormalized h \<lparr>bundlerFiles = bundlerFiles g, moduleResolutionCache = moduleResolutionCache g\<rparr>"
proof -
  define st0 where "st0 = \<lparr>bundlerFiles = bundlerFiles b, moduleResolutionCache = moduleResolutionCache b,
                        visited = [], modules = [], bundledSpecifiers = ([] :: (string \<times> string list) list)\<rparr>"
  from assms(3) have V: "visit fuel h opts entryPoint st0 = Some (Inr g)"
    by (simp add: buildModuleGraph_def st0_def)
  have I0: "graphInv h {} st0"
    unfolding st0_def by (rule graphInv_initial [OF assms(2)])
  have G: "graphInv h {} g \<or> (modules g = [] \<and> bundledSpecifiers g = []
             \<and> \<not> hasKey (bundlerFiles b) (resolvePath h entryPoint)
             \<and> bundlerFiles g = bundlerFiles b \<and> moduleResolutionCache g = moduleResolutionCache b)"
  proof (cases "hasKey (bundlerFiles b) (resolvePath h entryPoint)")
    case True
    then have "hasKey (bundlerFiles st0) (resolvePath h entryPoint)" by (simp add: st0_def)
    with walk_invariant(1) [of h st0 entryPoint fuel opts] assms(1) I0 V show ?thesis by blast
  next
    case False
    then have n: "map_of (bundlerFiles b) (resolvePath h entryPoint) = None" by (simp add: hasKey_def)
    from V obtain n' where f: "fuel = Suc n'" by (cases fuel) auto
    from V n have "g = st0\<lparr>visited := [resolvePath h entryPoint]\<rparr>"
      unfolding f by (simp add: st0_def Let_def)
    with False show ?thesis by (simp add: st0_def)
  qed
  then show ?thesis
  proof
    assume gi: "graphInv h {} g"
    then have
      1: "\<forall>k \<in> keysOf (bundlerFiles g). resolvePath h k = k" and
      2: "\<forall>k v. map_of (moduleResolutionCache g) k = Some v \<longrightarrow> resolvePath h v = v" and
      3: "\<forall>q m. map_of (modules g) q = Some m \<longrightarrow> set (importPaths m) \<subseteq> set (visited g)" and
      4: "set (visited g) \<subseteq> keysOf (modules g)" and
      5: "\<forall>q sp. map_of (bundledSpecifiers g) q = Some sp \<longrightarrow>
            (\<forall>s \<in> set sp. \<exists>rp. map_of (moduleResolutionCache g) (cacheKey s q) = Some rp
                                  \<and> rp \<in> set (visited g))"
      unfolding graphInv_def by simp_all
    from 3 4 have a: "\<forall>p m. map_of (modules g) p = Some m \<longrightarrow> set (importPaths m) \<subseteq> keysOf (modules g)"
      by blast
    from importsOf_closed [OF a]
    have b: "\<forall>q. (resolvePath h entryPoint, q) \<in> (importsOf g)\<^sup>+ \<longrightarrow> q \<in> keysOf (modules g)"
      by blast
    have c: "hasKey (bundlerFiles b) (resolvePath h entryPoint) \<longrightarrow>
            resolvePath h entryPoint \<in> keysOf (modules g)"
    proof
      assume "hasKey (bundlerFiles b) (resolvePath h entryPoint)"
      then have "hasKey (bundlerFiles st0) (resolvePath h entryPoint)" by (simp add: st0_def)
      with walk_invariant(1) [of h st0 entryPoint fuel opts] assms(1) I0 V
      have "resolvePath h entryPoint \<in> set (visited g)" by blast
      with 4 show "resolvePath h entryPoint \<in> keysOf (modules g)" by blast
    qed
    from 5 4 have d: "\<forall>p specs s. map_of (bundledSpecifiers g) p = Some specs \<and> s \<in> set specs \<longrightarrow>
            (\<exists>rp. map_of (moduleResolutionCache g) (cacheKey s p) = Some rp \<and> rp \<in> keysOf (modules g))"
      by (meson subsetD)
    from 1 2 have e: "bundlerNormalized h \<lparr>bundlerFiles = bundlerFiles g, moduleResolutionCache = moduleResolutionCache g\<rparr>"
      by (simp add: bundlerNormalized_def)
    from a b c d e show ?thesis by blast
  next
    assume e: "modules g = [] \<and> bundledSpecifiers g = []
             \<and> \<not> hasKey (bundlerFiles b) (resolvePath h entryPoint)
             \<and> bundlerFiles g = bundlerFiles b \<and> moduleResolutionCache g = moduleResolutionCache b"
    then have "importsOf g = {}" by (simp add: importsOf_def)
    with e assms(2) show ?thesis by (simp add: bundlerNormalized_def)
  qed
qed


lemma module_graph_closed_example:
  "normalizedResolver exampleHost
   \<and> bundlerNormalized exampleHost (new_DeclarationBundler exampleHost exampleDeclarations)
   \<and> buildModuleGraph 3 exampleHost exampleOptions
         (new_DeclarationBundler exampleHost exampleDeclarations) ''/p/dist/index.d.ts''
       = Some (Inr exampleGraph)
   \<and> ''/p/dist/index.d.ts'' \<in> keysOf (modules exampleGraph)
   \<and> ''/p/dist/types.d.ts'' \<in> keysOf (modules exampleGraph)
   \<and> (\<exists>rp. map_of (moduleResolutionCache exampleGraph) (cacheKey ''./types'' ''/p/dist/index.d.ts'') = Some rp
            \<and> rp \<in> keysOf (modules exampleGraph))"
proof -
  have n: "normalizedResolver exampleHost"
    by (auto simp: normalizedResolver_def exampleHost_def)
  have b: "bundlerNormalized exampleHost (new_DeclarationBundler exampleHost exampleDeclarations)"
    by (rule new_DeclarationBundler_normalized [OF n])
  have ev: "buildModuleGraph 3 exampleHost exampleOptions
         (new_DeclarationBundler exampleHost exampleDeclarations) ''/p/dist/index.d.ts''
       = Some (Inr exampleGraph)"
    by code_simp
  note t = module_graph_closed_on_resolved_paths [OF n b ev]
  have k: "hasKey (bundlerFiles (new_DeclarationBundler exampleHost exampleDeclarations))
             (resolvePath exampleHost ''/p/dist/index.d.ts'')"
    by code_simp
  have r: "resolvePath exampleHost ''/p/dist/index.d.ts'' = ''/p/dist/index.d.ts''"
    by (simp add: exampleHost_def)
  from t k r have 1: "''/p/dist/index.d.ts'' \<in> keysOf (modules exampleGraph)" by simp
  have m: "map_of (modules exampleGraph) ''/p/dist/index.d.ts'' = Some indexModule"
    by (simp add: exampleGraph_def)
  from t have "\<forall>p m. map_of (modules exampleGraph) p = Some m \<longrightarrow>
                 set (importPaths m) \<subseteq> keysOf (modules exampleGraph)" by blast
  from this [rule_format, OF m] have 2: "''/p/dist/types.d.ts'' \<in> keysOf (modules exampleGraph)"
    by (simp add: indexModule_def)
  have s: "map_of (bundledSpecifiers exampleGraph) ''/p/dist/index.d.ts'' = Some [''./types'']"
    by (simp add: exampleGraph_def)
  from t have "\<forall>p specs s. map_of (bundledSpecifiers exampleGraph) p = Some specs \<and> s \<in> set specs \<longrightarrow>
            (\<exists>rp. map_of (moduleResolutionCache exampleGraph) (cacheKey s p) = Some rp
                   \<and> rp \<in> keysOf (modules exampleGraph))" by blast
  from this [rule_format, of "''/p/dist/index.d.ts''" "[''./types'']" "''./types''"] s
  have 3: "\<exists>rp. map_of (moduleResolutionCache exampleGraph) (cacheKey ''./types'' ''/p/dist/index.d.ts'') = Some rp
            \<and> rp \<in> keysOf (modules exampleGraph)" by simp
  from n b ev 1 2 3 show ?thesis by blast
qed

text \<open>
  C7, evaluated on the entry that imports a package on Windows. The resolver returns the
  path of the package's declaration file with forward slashes. \<open>buildModuleGraph\<close> loads
  the file into the store under that spelling, adds that spelling to the imports of the
  entry and lists the specifier as bundled; the visit of the file then resolves the path,
  finds nothing in the store under the resolved spelling and makes no module. The graph
  that is returned has an import that is not a key of \<open>modules\<close>, and the bundled
  specifier \<open>lib\<close> has a resolver result that is not one either.
\<close>

theorem module_graph_import_without_module:
  "buildModuleGraph 3 windowsHost windowsOptions
       (new_DeclarationBundler windowsHost windowsDeclarations) (windowsResolve ''C:/p/dist/index.d.ts'')
     = Some (Inr windowsGraph)
   \<and> keysOf (modules windowsGraph) = {windowsResolve ''C:/p/dist/index.d.ts''}
   \<and> (windowsResolve ''C:/p/dist/index.d.ts'', ''C:/p/node_modules/lib/index.d.ts'') \<in> importsOf windowsGraph
   \<and> ''C:/p/node_modules/lib/index.d.ts'' \<notin> keysOf (modules windowsGraph)
   \<and> map_of (bundledSpecifiers windowsGraph) (windowsResolve ''C:/p/dist/index.d.ts'') = Some [''lib'']
   \<and> map_of (moduleResolutionCache windowsGraph) (cacheKey ''lib'' (windowsResolve ''C:/p/dist/index.d.ts''))
       = Some ''C:/p/node_modules/lib/index.d.ts''"
proof -
  have 1: "buildModuleGraph 3 windowsHost windowsOptions
       (new_DeclarationBundler windowsHost windowsDeclarations) (windowsResolve ''C:/p/dist/index.d.ts'')
     = Some (Inr windowsGraph)"
    by code_simp
  have 2: "keysOf (modules windowsGraph) = {windowsResolve ''C:/p/dist/index.d.ts''}"
    by (simp add: keysOf_def windowsGraph_def)
  have 3: "(windowsResolve ''C:/p/dist/index.d.ts'', ''C:/p/node_modules/lib/index.d.ts'') \<in> importsOf windowsGraph"
    by (simp add: importsOf_def windowsGraph_def)
  have 4: "''C:/p/node_modules/lib/index.d.ts'' \<notin> keysOf (modules windowsGraph)"
    unfolding 2 by (simp add: windowsResolve_def)
  have 5: "map_of (bundledSpecifiers windowsGraph) (windowsResolve ''C:/p/dist/index.d.ts'') = Some [''lib'']"
    by (simp add: windowsGraph_def)
  have 6: "map_of (moduleResolutionCache windowsGraph) (cacheKey ''lib'' (windowsResolve ''C:/p/dist/index.d.ts''))
       = Some ''C:/p/node_modules/lib/index.d.ts''"
    by (simp add: windowsGraph_def)
  from 1 2 3 4 5 6 show ?thesis by (intro conjI)
qed

end
